theory Spec2Isabelle
  imports Main
begin

section \<open>Strings, numbers and errors of the runtime\<close>

text \<open>
  A string is a list of 8-bit characters; \<open>length\<close> is the source's \<open>.length\<close> for every
  string whose code units are below 256 (all strings the code formatter produces are
  ASCII). A thrown exception is a value: the constructor is the class of the exception,
  the argument its message.
\<close>

datatype js_error = Error string | SyntaxError string

text \<open>
  A number is an integer or \<open>NaN\<close>; the code formatter meets no fraction and no infinity
  on integer inputs. \<open>Number.prototype.toString()\<close> renders an integer in decimal, most
  significant digit first, with a leading minus sign when negative (the rendering of the
  source has this form for every integer below \<open>10^21\<close> in absolute value).
\<close>

datatype jsnum = NaN | Num int

definition digit_char :: "nat \<Rightarrow> char" where
  "digit_char d = ''0123456789'' ! d"

function nat_toString :: "nat \<Rightarrow> string" where
  "nat_toString n =
     (if n < 10 then [digit_char n] else nat_toString (n div 10) @ [digit_char (n mod 10)])"
  by pat_completeness auto
termination
  by (relation "measure id") auto

declare nat_toString.simps [simp del]

definition int_toString :: "int \<Rightarrow> string" where
  "int_toString i = (if i < 0 then CHR ''-'' # nat_toString (nat (- i)) else nat_toString (nat i))"

fun jsnum_toString :: "jsnum \<Rightarrow> string" where
  "jsnum_toString NaN = ''NaN''"
| "jsnum_toString (Num i) = int_toString i"

fun jsnum_add :: "jsnum \<Rightarrow> jsnum \<Rightarrow> jsnum" where
  "jsnum_add (Num a) (Num b) = Num (a + b)"
| "jsnum_add _ _ = NaN"

text \<open>The remainder operator \<open>x % 10\<close>: the result takes the sign of the dividend.\<close>

fun jsnum_rem10 :: "jsnum \<Rightarrow> jsnum" where
  "jsnum_rem10 (Num a) = Num (if 0 \<le> a then a mod 10 else - ((- a) mod 10))"
| "jsnum_rem10 NaN = NaN"

definition is_digit :: "char \<Rightarrow> bool" where
  "is_digit c = (48 \<le> (of_char c :: nat) \<and> (of_char c :: nat) \<le> 57)"

text \<open>
  \<open>parseInt(digit, 10)\<close> on a string of one character, as \<open>split('')\<close> hands them out: the
  digit's value, \<open>NaN\<close> for any other character.
\<close>

definition parseInt_char :: "char \<Rightarrow> jsnum" where
  "parseInt_char c = (if is_digit c then Num (int (of_char c) - 48) else NaN)"

text \<open>\<open>String.prototype.slice(start, end)\<close> for \<open>0 \<le> start \<le> end\<close>: both ends are clamped to the length.\<close>

definition slice :: "string \<Rightarrow> nat \<Rightarrow> nat \<Rightarrow> string" where
  "slice s startIdx endIdx = take (endIdx - startIdx) (drop startIdx s)"

text \<open>\<open>s.slice(-k)\<close>: the last \<open>k\<close> characters, the whole string when it is shorter.\<close>

definition slice_last :: "string \<Rightarrow> nat \<Rightarrow> string" where
  "slice_last s k = drop (length s - k) s"

text \<open>\<open>s.padStart(targetLength, c)\<close> with a pad string of one character.\<close>

definition padStart :: "string \<Rightarrow> nat \<Rightarrow> char \<Rightarrow> string" where
  "padStart s targetLength c = replicate (targetLength - length s) c @ s"

text \<open>
  The white space that the regular expression class \<open>\s\<close> matches, among code units below
  256: tab, line feed, vertical tab, form feed, carriage return, space, no-break space.
\<close>

definition is_space :: "char \<Rightarrow> bool" where
  "is_space c =
     ((9 \<le> (of_char c :: nat) \<and> (of_char c :: nat) \<le> 13) \<or> (of_char c :: nat) = 32 \<or> (of_char c :: nat) = 160)"

text \<open>
  \<open>toLowerCase\<close> on one code unit below 256: the ASCII capitals and the Latin-1 capitals
  (\<open>0xC0\<close> to \<open>0xDE\<close> without the multiplication sign \<open>0xD7\<close>) move up by 32.
\<close>

definition to_lower :: "char \<Rightarrow> char" where
  "to_lower c =
     (let n = (of_char c :: nat)
      in if (65 \<le> n \<and> n \<le> 90) \<or> (192 \<le> n \<and> n \<le> 222 \<and> n \<noteq> 215) then char_of (n + 32) else c)"

definition is_hex :: "char \<Rightarrow> bool" where
  "is_hex c =
     (let n = (of_char c :: nat)
      in (48 \<le> n \<and> n \<le> 57) \<or> (97 \<le> n \<and> n \<le> 102) \<or> (65 \<le> n \<and> n \<le> 70))"

definition hex_val :: "char \<Rightarrow> nat" where
  "hex_val c =
     (let n = (of_char c :: nat)
      in if n \<le> 57 then n - 48 else if 97 \<le> n then n - 87 else n - 55)"

text \<open>
  \<open>BigInt('0x' + h)\<close>: the value of a hexadecimal literal. The conversion trims the white
  space at both ends of its argument, which here is the white space at the end of \<open>h\<close>;
  it throws a \<open>SyntaxError\<close> when no digit is left or when a character that is left is
  no hexadecimal digit.
\<close>

definition hex_value :: "string \<Rightarrow> nat" where
  "hex_value h = foldl (\<lambda>acc c. 16 * acc + hex_val c) 0 h"

definition BigInt_hex :: "string \<Rightarrow> js_error + nat" where
  "BigInt_hex h =
     (let digits = rev (dropWhile is_space (rev h))
      in if digits = [] then Inl (SyntaxError (''Cannot convert 0x'' @ h @ '' to a BigInt''))
         else if list_all is_hex digits then Inr (hex_value digits)
         else Inl (SyntaxError (''Cannot convert 0x'' @ h @ '' to a BigInt'')))"

text \<open>
  \<open>BigInt(s)\<close> on a string of decimal digits (the empty string is \<open>0n\<close>); \<open>None\<close> stands
  for every other string, which this development never converts.
\<close>

definition digit_val :: "char \<Rightarrow> nat" where
  "digit_val c = (of_char c :: nat) - 48"

definition dec_value :: "string \<Rightarrow> nat" where
  "dec_value s = foldl (\<lambda>acc c. 10 * acc + digit_val c) 0 s"

definition BigInt_dec :: "string \<Rightarrow> nat option" where
  "BigInt_dec s = (if list_all is_digit s then Some (dec_value s) else None)"

text \<open>\<open>BigInt.prototype.toString(16)\<close> of a value that is not negative: lower case, no leading zero.\<close>

definition hex_char :: "nat \<Rightarrow> char" where
  "hex_char d = ''0123456789abcdef'' ! d"

function nat_toString16 :: "nat \<Rightarrow> string" where
  "nat_toString16 n =
     (if n < 16 then [hex_char n] else nat_toString16 (n div 16) @ [hex_char (n mod 16)])"
  by pat_completeness auto
termination
  by (relation "measure id") auto

declare nat_toString16.simps [simp del]

section \<open>The code formatter (\<open>codeFormatter\<close>)\<close>

text \<open>
  In this section a string is a sequence of code units below 256, so \<open>length\<close> is the
  source's \<open>.length\<close>.
\<close>

definition hexToDecimalPadded :: "string \<Rightarrow> nat \<Rightarrow> js_error + string" where
  "hexToDecimalPadded hex targetLength =
     (let cleanHex = map to_lower (filter (\<lambda>c. \<not> is_space c) hex)
      in case BigInt_hex cleanHex of
           Inl e \<Rightarrow> Inl e
         | Inr n \<Rightarrow> (let decimal = nat_toString n in Inr (padStart decimal targetLength CHR ''0'')))"

text \<open>
  A \<open>Date\<close> object as its getters show it in the local time zone: the full year, the
  month from 0, the day of the month, hours, minutes and seconds; or the invalid date,
  whose getters all return \<open>NaN\<close>. A string argument is first handed to \<open>new Date\<close>, which
  is outside this model: the date below is the object that results.
\<close>

datatype jsdate = Invalid_Date | Local_Date int int int int int int

fun getFullYear :: "jsdate \<Rightarrow> jsnum" where
  "getFullYear Invalid_Date = NaN"
| "getFullYear (Local_Date y mo d h mi s) = Num y"

fun getMonth :: "jsdate \<Rightarrow> jsnum" where
  "getMonth Invalid_Date = NaN"
| "getMonth (Local_Date y mo d h mi s) = Num mo"

fun getDate :: "jsdate \<Rightarrow> jsnum" where
  "getDate Invalid_Date = NaN"
| "getDate (Local_Date y mo d h mi s) = Num d"

fun getHours :: "jsdate \<Rightarrow> jsnum" where
  "getHours Invalid_Date = NaN"
| "getHours (Local_Date y mo d h mi s) = Num h"

fun getMinutes :: "jsdate \<Rightarrow> jsnum" where
  "getMinutes Invalid_Date = NaN"
| "getMinutes (Local_Date y mo d h mi s) = Num mi"

fun getSeconds :: "jsdate \<Rightarrow> jsnum" where
  "getSeconds Invalid_Date = NaN"
| "getSeconds (Local_Date y mo d h mi s) = Num s"

text \<open>The ranges of the getters of a valid date.\<close>

fun date_in_range :: "jsdate \<Rightarrow> bool" where
  "date_in_range Invalid_Date = False"
| "date_in_range (Local_Date y mo d h mi s) =
     (- 271821 \<le> y \<and> y \<le> 275760 \<and> 0 \<le> mo \<and> mo \<le> 11 \<and> 1 \<le> d \<and> d \<le> 31 \<and>
      0 \<le> h \<and> h \<le> 23 \<and> 0 \<le> mi \<and> mi \<le> 59 \<and> 0 \<le> s \<and> s \<le> 59)"

definition formatDateForCode :: "jsdate \<Rightarrow> string" where
  "formatDateForCode dateObj =
     (let year = slice_last (jsnum_toString (getFullYear dateObj)) 2;
          month = padStart (jsnum_toString (jsnum_add (getMonth dateObj) (Num 1))) 2 CHR ''0'';
          day = padStart (jsnum_toString (getDate dateObj)) 2 CHR ''0'';
          hours = padStart (jsnum_toString (getHours dateObj)) 2 CHR ''0'';
          minutes = padStart (jsnum_toString (getMinutes dateObj)) 2 CHR ''0'';
          seconds = padStart (jsnum_toString (getSeconds dateObj)) 2 CHR ''0''
      in year @ month @ day @ hours @ minutes @ seconds)"

definition calculateControlCharacter :: "string \<Rightarrow> string" where
  "calculateControlCharacter dataString =
     (let sum = foldl (\<lambda>acc digit. jsnum_add acc (parseInt_char digit)) (Num 0) dataString
      in jsnum_toString (jsnum_rem10 sum))"

text \<open>
  The tax number is a number of the source that holds an integer. An exception of
  \<open>hexToDecimalPadded\<close> leaves the function as it is.
\<close>

definition formatCodeData :: "string \<Rightarrow> int \<Rightarrow> jsdate \<Rightarrow> js_error + string" where
  "formatCodeData zoi taxNumber issueDateTime =
     (case hexToDecimalPadded zoi 39 of
        Inl e \<Rightarrow> Inl e
      | Inr zoiDecimal \<Rightarrow>
          (let taxNumberStr = padStart (int_toString taxNumber) 8 CHR ''0'';
               dateTimeStr = formatDateForCode issueDateTime;
               dataWithoutControl = zoiDecimal @ taxNumberStr @ dateTimeStr;
               controlChar = calculateControlCharacter dataWithoutControl
           in Inr (dataWithoutControl @ controlChar)))"

text \<open>\<open>/^[0-9a-fA-F]{32}$/.test(zoi)\<close> and \<open>/^\d{8}$/.test(taxNumber.toString())\<close>.\<close>

definition validateZOI :: "string \<Rightarrow> bool" where
  "validateZOI zoi = (length zoi = 32 \<and> list_all is_hex zoi)"


text \<open>
  Two notions to state the payload with: the sum of the values of the digits of a string,
  and a number below 100 written with two digits.
\<close>

definition digit_sum :: "string \<Rightarrow> nat" where
  "digit_sum s = sum_list (map digit_val s)"

definition two_digits :: "nat \<Rightarrow> string" where
  "two_digits n = [digit_char (n div 10), digit_char (n mod 10)]"

section \<open>Code128 splitting (\<open>splitForCode128\<close>)\<close>

text \<open>
  The \<open>switch\<close> over the number of parts: the pair is \<open>(dataPerPart, prefix)\<close>; \<open>None\<close> is
  the \<open>default\<close> branch.
\<close>

definition split_table :: "int \<Rightarrow> (nat \<times> string) option" where
  "split_table parts =
     (if parts = 2 then Some (30, ''4'')
      else if parts = 3 then Some (20, ''4'')
      else if parts = 4 then Some (15, ''44'')
      else if parts = 5 then Some (12, ''4'')
      else if parts = 6 then Some (10, ''4'')
      else None)"

text \<open>The \<open>for\<close> loop \<open>for (let i = 0; i < parts; i++)\<close>, pushing one string per round.\<close>

function split_loop :: "string \<Rightarrow> string \<Rightarrow> nat \<Rightarrow> nat \<Rightarrow> nat \<Rightarrow> string list \<Rightarrow> string list" where
  "split_loop codeData prefix actualDataPerPart parts i result =
     (if i < parts then
        (let sequenceNumber = nat_toString (i + 1);
             startIdx = i * actualDataPerPart;
             endIdx = startIdx + actualDataPerPart;
             dataPart = slice codeData startIdx endIdx
         in split_loop codeData prefix actualDataPerPart parts (i + 1)
              (result @ [prefix @ sequenceNumber @ dataPart]))
      else result)"
  by pat_completeness auto
termination
  by (relation "measure (\<lambda>(codeData, prefix, a, parts, i, result). parts - i)") auto

declare split_loop.simps [simp del]

definition splitForCode128 :: "string \<Rightarrow> int \<Rightarrow> js_error + string list" where
  "splitForCode128 codeData parts =
     (if parts < 2 \<or> parts > 6 then Inl (Error ''Number of parts must be between 2 and 6'')
      else if length codeData \<noteq> 60 then Inl (Error ''Code data must be exactly 60 digits'')
      else (case split_table parts of
              None \<Rightarrow> Inl (Error ''Invalid number of parts'')
            | Some (dataPerPart, prefix) \<Rightarrow>
                (let prefixLength = length prefix + 1;
                     actualDataPerPart = dataPerPart - prefixLength
                 in Inr (split_loop codeData prefix actualDataPerPart (nat parts) 0 []))))"

text \<open>
  The data slice of an emitted part: the part with its prefix and its single sequence
  digit removed.
\<close>

definition data_slice :: "string \<Rightarrow> string \<Rightarrow> string" where
  "data_slice prefix part = drop (length prefix + 1) part"

section \<open>Base64URL (\<open>base64urlEncode\<close>, \<open>base64urlDecode\<close>)\<close>

text \<open>
  The text that is encoded is a list of code points: a well-formed string is a list of
  Unicode scalar values, and a surrogate that stands alone in the string is a code point
  of its own. A byte is a natural number below 256. The encoded form is a string of code
  units below 256, as in the section before.
\<close>

type_synonym ustring = "nat list"

type_synonym bytes = "nat list"

definition is_scalar :: "nat \<Rightarrow> bool" where
  "is_scalar cp = (cp < 0x110000 \<and> \<not> (0xD800 \<le> cp \<and> cp \<le> 0xDFFF))"

text \<open>
  \<open>Buffer.from(input, 'utf8')\<close>: the UTF-8 bytes of the string; a lone surrogate is
  written as the replacement character \<open>U+FFFD\<close>, that is \<open>EF BF BD\<close>.
\<close>

definition utf8_encode_cp :: "nat \<Rightarrow> bytes" where
  "utf8_encode_cp cp =
     (if cp < 0x80 then [cp]
      else if cp < 0x800 then [0xC0 + cp div 64, 0x80 + cp mod 64]
      else if 0xD800 \<le> cp \<and> cp \<le> 0xDFFF then [0xEF, 0xBF, 0xBD]
      else if cp < 0x10000 then [0xE0 + cp div 4096, 0x80 + cp div 64 mod 64, 0x80 + cp mod 64]
      else [0xF0 + cp div 262144, 0x80 + cp div 4096 mod 64, 0x80 + cp div 64 mod 64,
            0x80 + cp mod 64])"

definition Buffer_from_utf8 :: "ustring \<Rightarrow> bytes" where
  "Buffer_from_utf8 s = concat (map utf8_encode_cp s)"

text \<open>
  \<open>buffer.toString('utf8')\<close>: the decoder of UTF-8 that never fails. A sequence that is not
  well formed gives one replacement character for its longest prefix that could start a
  well-formed sequence, and decoding goes on at the byte that broke it. The bounds of the
  second byte depend on the first: they exclude the overlong forms, the surrogates and the
  code points above \<open>U+10FFFF\<close>.
\<close>

definition is_cont :: "nat \<Rightarrow> bool" where
  "is_cont b = (0x80 \<le> b \<and> b \<le> 0xBF)"

definition second_lower :: "nat \<Rightarrow> nat" where
  "second_lower b0 = (if b0 = 0xE0 then 0xA0 else if b0 = 0xF0 then 0x90 else 0x80)"

definition second_upper :: "nat \<Rightarrow> nat" where
  "second_upper b0 = (if b0 = 0xED then 0x9F else if b0 = 0xF4 then 0x8F else 0xBF)"

fun utf8_decode :: "bytes \<Rightarrow> ustring" where
  "utf8_decode [] = []"
| "utf8_decode (b0 # bs) =
     (if b0 < 0x80 then b0 # utf8_decode bs
      else if 0xC2 \<le> b0 \<and> b0 \<le> 0xDF then
        (case bs of
           [] \<Rightarrow> [0xFFFD]
         | b1 # bs1 \<Rightarrow>
             if is_cont b1 then ((b0 - 0xC0) * 64 + (b1 - 0x80)) # utf8_decode bs1
             else 0xFFFD # utf8_decode bs)
      else if 0xE0 \<le> b0 \<and> b0 \<le> 0xEF then
        (case bs of
           [] \<Rightarrow> [0xFFFD]
         | b1 # bs1 \<Rightarrow>
             if second_lower b0 \<le> b1 \<and> b1 \<le> second_upper b0 then
               (case bs1 of
                  [] \<Rightarrow> [0xFFFD]
                | b2 # bs2 \<Rightarrow>
                    if is_cont b2 then
                      ((b0 - 0xE0) * 4096 + (b1 - 0x80) * 64 + (b2 - 0x80)) # utf8_decode bs2
                    else 0xFFFD # utf8_decode bs1)
             else 0xFFFD # utf8_decode bs)
      else if 0xF0 \<le> b0 \<and> b0 \<le> 0xF4 then
        (case bs of
           [] \<Rightarrow> [0xFFFD]
         | b1 # bs1 \<Rightarrow>
             if second_lower b0 \<le> b1 \<and> b1 \<le> second_upper b0 then
               (case bs1 of
                  [] \<Rightarrow> [0xFFFD]
                | b2 # bs2 \<Rightarrow>
                    if is_cont b2 then
                      (case bs2 of
                         [] \<Rightarrow> [0xFFFD]
                       | b3 # bs3 \<Rightarrow>
                           if is_cont b3 then
                             ((b0 - 0xF0) * 262144 + (b1 - 0x80) * 4096 + (b2 - 0x80) * 64 +
                              (b3 - 0x80)) # utf8_decode bs3
                           else 0xFFFD # utf8_decode bs2)
                    else 0xFFFD # utf8_decode bs1)
             else 0xFFFD # utf8_decode bs)
      else 0xFFFD # utf8_decode bs)"

declare utf8_decode.simps(2) [simp del]

definition Buffer_toString_utf8 :: "bytes \<Rightarrow> ustring" where
  "Buffer_toString_utf8 b = utf8_decode b"

text \<open>
  \<open>buffer.toString('base64')\<close> (and \<open>forge.util.encode64\<close> on the bytes of a buffer): three
  bytes give four characters of the alphabet, the last group is padded with \<open>=\<close>.
\<close>

definition b64_char :: "nat \<Rightarrow> char" where
  "b64_char i = ''ABCDEFGHIJKLMNOPQRSTUVWXYZabcdefghijklmnopqrstuvwxyz0123456789+/'' ! i"

fun base64_encode :: "bytes \<Rightarrow> string" where
  "base64_encode [] = []"
| "base64_encode [a] = [b64_char (a div 4), b64_char (a mod 4 * 16), CHR ''='', CHR ''='']"
| "base64_encode [a, b] =
     [b64_char (a div 4), b64_char (a mod 4 * 16 + b div 16), b64_char (b mod 16 * 4), CHR ''='']"
| "base64_encode (a # b # c # rest) =
     [b64_char (a div 4), b64_char (a mod 4 * 16 + b div 16), b64_char (b mod 16 * 4 + c div 64),
      b64_char (c mod 64)] @ base64_encode rest"

text \<open>
  \<open>Buffer.from(s, 'base64')\<close>: the decoder takes the characters of both alphabets (\<open>+\<close> and
  \<open>-\<close> are 62, \<open>/\<close> and \<open>_\<close> are 63), skips every other character, stops at the first
  \<open>=\<close>, and never fails. Four characters give three bytes; a last group of three gives two
  bytes, of two gives one, a single character gives none.
\<close>

definition unbase64 :: "char \<Rightarrow> nat option" where
  "unbase64 c =
     (let n = (of_char c :: nat)
      in if 65 \<le> n \<and> n \<le> 90 then Some (n - 65)
         else if 97 \<le> n \<and> n \<le> 122 then Some (n - 71)
         else if 48 \<le> n \<and> n \<le> 57 then Some (n + 4)
         else if n = 43 \<or> n = 45 then Some 62
         else if n = 47 \<or> n = 95 then Some 63
         else None)"

fun decode_sextets :: "nat list \<Rightarrow> bytes" where
  "decode_sextets (a # b # c # d # rest) =
     [a * 4 + b div 16, b mod 16 * 16 + c div 4, c mod 4 * 64 + d] @ decode_sextets rest"
| "decode_sextets [a, b, c] = [a * 4 + b div 16, b mod 16 * 16 + c div 4]"
| "decode_sextets [a, b] = [a * 4 + b div 16]"
| "decode_sextets [a] = []"
| "decode_sextets [] = []"

definition Buffer_from_base64 :: "string \<Rightarrow> bytes" where
  "Buffer_from_base64 s =
     decode_sextets (List.map_filter unbase64 (takeWhile (\<lambda>c. c \<noteq> CHR ''='') s))"

text \<open>\<open>s.replace(/x/g, r)\<close> for a single character \<open>x\<close>.\<close>

definition replace_all :: "char \<Rightarrow> string \<Rightarrow> string \<Rightarrow> string" where
  "replace_all x r s = concat (map (\<lambda>c. if c = x then r else [c]) s)"

text \<open>The argument of \<open>base64urlEncode\<close> is a string or a buffer.\<close>

datatype encode_input = Str ustring | Buf bytes

definition base64urlEncode :: "encode_input \<Rightarrow> string" where
  "base64urlEncode input =
     (let base64 = (case input of
                      Str s \<Rightarrow> base64_encode (Buffer_from_utf8 s)
                    | Buf b \<Rightarrow> base64_encode b)
      in replace_all CHR ''='' [] (replace_all CHR ''/'' ''_'' (replace_all CHR ''+'' ''-'' base64)))"

text \<open>The padded string \<open>paddedData\<close> of \<open>base64urlDecode\<close>.\<close>

definition paddedData :: "string \<Rightarrow> string" where
  "paddedData data = (let padding = 4 - length data mod 4 in data @ replicate (padding mod 4) CHR ''='')"

definition base64urlDecode :: "string \<Rightarrow> ustring" where
  "base64urlDecode data =
     Buffer_toString_utf8
       (Buffer_from_base64 (replace_all CHR ''_'' ''/'' (replace_all CHR ''-'' ''+'' (paddedData data))))"

section \<open>Decoding a token (\<open>decodeJWT\<close>)\<close>

text \<open>\<open>s.split(sep)\<close> for a separator of one character: the empty string gives one empty part.\<close>

fun split_on :: "char \<Rightarrow> string \<Rightarrow> string list" where
  "split_on sep [] = [[]]"
| "split_on sep (c # cs) =
     (if c = sep then [] # split_on sep cs
      else (case split_on sep cs of
              [] \<Rightarrow> [[c]]
            | p # ps \<Rightarrow> (c # p) # ps))"

fun message :: "js_error \<Rightarrow> string" where
  "message (Error m) = m"
| "message (SyntaxError m) = m"

text \<open>
  The result of \<open>decodeJWT\<close>. The values of JSON are of a type \<open>'j\<close> that stays open:
  \<open>JSON.parse\<close> is a parameter, a function from the text to a value or to the error it
  throws, and so is the empty object \<open>{}\<close>.
\<close>

record 'j jwt_decoded =
  jwt_header :: 'j
  jwt_payload :: 'j
  jwt_signature :: string
  jwt_valid :: bool
  jwt_error :: "string option"

text \<open>The body of the \<open>try\<close> block: \<open>Inl\<close> is what it throws.\<close>

definition decodeJWT_try :: "(ustring \<Rightarrow> js_error + 'j) \<Rightarrow> string \<Rightarrow> js_error + 'j jwt_decoded" where
  "decodeJWT_try JSON_parse jwt =
     (let parts = split_on CHR ''.'' jwt
      in if length parts \<noteq> 3 then Inl (Error ''Invalid JWT format - should have 3 parts'')
         else (case JSON_parse (base64urlDecode (parts ! 0)) of
                 Inl e \<Rightarrow> Inl e
               | Inr header \<Rightarrow>
                   (case JSON_parse (base64urlDecode (parts ! 1)) of
                      Inl e \<Rightarrow> Inl e
                    | Inr payload \<Rightarrow>
                        Inr \<lparr>jwt_header = header, jwt_payload = payload,
                             jwt_signature = parts ! 2, jwt_valid = True, jwt_error = None\<rparr>)))"

text \<open>
  The whole function: the \<open>catch\<close> block turns what was thrown into the object with an
  empty header, an empty payload, the empty signature, \<open>valid: false\<close> and the message of
  what was thrown as \<open>error\<close>.
\<close>

definition decodeJWT :: "(ustring \<Rightarrow> js_error + 'j) \<Rightarrow> 'j \<Rightarrow> string \<Rightarrow> 'j jwt_decoded" where
  "decodeJWT JSON_parse empty_object jwt =
     (case decodeJWT_try JSON_parse jwt of
        Inr decoded \<Rightarrow> decoded
      | Inl e \<Rightarrow>
          \<lparr>jwt_header = empty_object, jwt_payload = empty_object, jwt_signature = [],
           jwt_valid = False, jwt_error = Some (message e)\<rparr>)"

section \<open>The code generator (\<open>FursCodeGenerator\<close>)\<close>








text \<open>
  An asynchronous function is modelled by how its promise settles: \<open>Inl e\<close> when it is
  rejected with \<open>e\<close>, \<open>Inr v\<close> when it is fulfilled with \<open>v\<close>. Then \<open>await\<close> hands the value on
  and lets an exception pass; the same holds for a call that is not awaited.
\<close>

definition await :: "js_error + 'a \<Rightarrow> ('a \<Rightarrow> js_error + 'b) \<Rightarrow> js_error + 'b" where
  "await outcome continue = (case outcome of Inl e \<Rightarrow> Inl e | Inr v \<Rightarrow> continue v)"








section \<open>The identity of a certificate (\<open>getCertificateInfo\<close>)\<close>

text \<open>
  An attribute of a distinguished name as the certificate library hands it out: the short
  name when the library knows one, the object identifier, and the value. In this section
  a string may be read as the UTF-8 bytes of the source's string: the code looks only
  for commas and decimal digits and compares with ASCII literals.
\<close>

record cert_attr =
  attr_shortName :: "string option"
  attr_type :: string
  attr_value :: string

record certificate =
  subject_attributes :: "cert_attr list"
  issuer_attributes :: "cert_attr list"
  serialNumber :: string

text \<open>The result, without the two dates of validity, which are copied from the certificate.\<close>

record certificate_info =
  subject_name :: string
  issuer_name :: string
  serial :: string

text \<open>\<open>parts.join(',')\<close>.\<close>

fun join_comma :: "string list \<Rightarrow> string" where
  "join_comma [] = []"
| "join_comma [p] = p"
| "join_comma (p # q # ps) = p @ '','' @ join_comma (q # ps)"

text \<open>\<open>/^\d+$/.test(v)\<close>.\<close>

definition all_digits :: "string \<Rightarrow> bool" where
  "all_digits v = (case v of [] \<Rightarrow> False | _ # _ \<Rightarrow> list_all is_digit v)"

text \<open>
  The subject: each step looks for the first attribute of its kind and, when there is
  one, pushes a part; \<open>subjectParts\<close> is the array after each step. The constants \<open>o\<close>
  and \<open>c\<close> of the source are \<open>oAttr\<close> and \<open>cAttr\<close> here.
\<close>

definition subject_of :: "cert_attr list \<Rightarrow> string" where
  "subject_of subjectAttrs =
     (let subjectParts0 = [];
          cn = find (\<lambda>attr. attr_shortName attr = Some ''CN'' \<or> attr_type attr = ''2.5.4.3'') subjectAttrs;
          subjectParts1 =
            (case cn of
               None \<Rightarrow> subjectParts0
             | Some cn \<Rightarrow>
                 (let cnValue = attr_value cn
                  in if CHR '','' \<in> set cnValue
                     then subjectParts0 @ [''CN='' @ replace_all CHR '','' [CHR 0x5C, CHR '',''] cnValue]
                     else subjectParts0 @ [''CN='' @ cnValue]));
          serialAttr = find (\<lambda>attr. attr_type attr = ''2.5.4.5'') subjectAttrs;
          subjectParts2 =
            (case serialAttr of
               None \<Rightarrow> subjectParts1
             | Some _ \<Rightarrow> subjectParts1 @ [''2.5.4.5=#1'']);
          ouAttrs = filter (\<lambda>attr. attr_shortName attr = Some ''OU'' \<or> attr_type attr = ''2.5.4.11'')
                      subjectAttrs;
          davPotRac = find (\<lambda>ou. attr_value ou = ''DavPotRacTEST'') ouAttrs;
          taxNumber = find (\<lambda>ou. all_digits (attr_value ou)) ouAttrs;
          subjectParts3 =
            (case davPotRac of
               None \<Rightarrow> subjectParts2
             | Some ou \<Rightarrow> subjectParts2 @ [''OU='' @ attr_value ou]);
          subjectParts4 =
            (case taxNumber of
               None \<Rightarrow> subjectParts3
             | Some ou \<Rightarrow> subjectParts3 @ [''OU='' @ attr_value ou]);
          oAttr = find (\<lambda>attr. attr_shortName attr = Some ''O'' \<or> attr_type attr = ''2.5.4.10'') subjectAttrs;
          subjectParts5 =
            (case oAttr of
               None \<Rightarrow> subjectParts4
             | Some a \<Rightarrow> subjectParts4 @ [''O='' @ attr_value a]);
          cAttr = find (\<lambda>attr. attr_shortName attr = Some ''C'' \<or> attr_type attr = ''2.5.4.6'') subjectAttrs;
          subjectParts6 =
            (case cAttr of
               None \<Rightarrow> subjectParts5
             | Some a \<Rightarrow> subjectParts5 @ [''C='' @ attr_value a])
      in join_comma subjectParts6)"

definition issuer_of :: "cert_attr list \<Rightarrow> string" where
  "issuer_of issuerAttrs =
     (let issuerParts0 = [];
          issuerCn = find (\<lambda>attr. attr_shortName attr = Some ''CN'' \<or> attr_type attr = ''2.5.4.3'') issuerAttrs;
          issuerParts1 =
            (case issuerCn of
               None \<Rightarrow> issuerParts0
             | Some a \<Rightarrow> issuerParts0 @ [''CN='' @ attr_value a]);
          issuerO = find (\<lambda>attr. attr_shortName attr = Some ''O'' \<or> attr_type attr = ''2.5.4.10'') issuerAttrs;
          issuerParts2 =
            (case issuerO of
               None \<Rightarrow> issuerParts1
             | Some a \<Rightarrow> issuerParts1 @ [''O='' @ attr_value a]);
          issuerC = find (\<lambda>attr. attr_shortName attr = Some ''C'' \<or> attr_type attr = ''2.5.4.6'') issuerAttrs;
          issuerParts3 =
            (case issuerC of
               None \<Rightarrow> issuerParts2
             | Some a \<Rightarrow> issuerParts2 @ [''C='' @ attr_value a])
      in join_comma issuerParts3)"

text \<open>
  \<open>getCertificateInfo\<close> on the certificate of the first bag. The serial number is read
  as a hexadecimal literal by \<open>BigInt\<close>, which throws when it is none.
\<close>

definition getCertificateInfo :: "certificate \<Rightarrow> js_error + certificate_info" where
  "getCertificateInfo cert =
     (let subject = subject_of (subject_attributes cert);
          issuer = issuer_of (issuer_attributes cert);
          serialHex = serialNumber cert
      in case BigInt_hex serialHex of
           Inl e \<Rightarrow> Inl e
         | Inr serialBigInt \<Rightarrow>
             (let serialDecimal = nat_toString serialBigInt
              in Inr \<lparr>subject_name = subject, issuer_name = issuer, serial = serialDecimal\<rparr>))"

section \<open>Notions for the proofs about Base64\<close>

text \<open>
  The values of six bits that \<open>base64_encode\<close> writes, before they are turned into
  characters, and the character of the URL-safe alphabet for such a value.
\<close>

fun sextets :: "bytes \<Rightarrow> nat list" where
  "sextets [] = []"
| "sextets [a] = [a div 4, a mod 4 * 16]"
| "sextets [a, b] = [a div 4, a mod 4 * 16 + b div 16, b mod 16 * 4]"
| "sextets (a # b # c # rest) =
     [a div 4, a mod 4 * 16 + b div 16, b mod 16 * 4 + c div 64, c mod 64] @ sextets rest"

definition b64url_char :: "nat \<Rightarrow> char" where
  "b64url_char i = (if i = 62 then CHR ''-'' else if i = 63 then CHR ''_'' else b64_char i)"

section \<open>The identity string in the words of the specification\<close>

text \<open>
  The part that an attribute contributes when the certificate has one of its kind: the
  first attribute that satisfies the predicate is rendered, and nothing stands for an
  attribute that is absent.
\<close>

definition present :: "(cert_attr \<Rightarrow> bool) \<Rightarrow> (cert_attr \<Rightarrow> string) \<Rightarrow> cert_attr list \<Rightarrow> string list" where
  "present P render attrs = (case find P attrs of None \<Rightarrow> [] | Some a \<Rightarrow> [render a])"

definition escape_commas :: "string \<Rightarrow> string" where
  "escape_commas v = concat (map (\<lambda>c. if c = CHR '','' then [CHR 0x5C, CHR '',''] else [c]) v)"

definition is_OU :: "cert_attr \<Rightarrow> bool" where
  "is_OU a = (attr_shortName a = Some ''OU'' \<or> attr_type a = ''2.5.4.11'')"

text \<open>
  The subject identity string as the specification words it: the parts that are present,
  joined with commas, in the order CN (commas escaped), the placeholder for the attribute
  \<open>2.5.4.5\<close>, the OU that is the device-class marker, the OU that is all digits, O, C.
\<close>

definition subject_identity_spec :: "cert_attr list \<Rightarrow> string" where
  "subject_identity_spec attrs =
     join_comma
       (present (\<lambda>a. attr_shortName a = Some ''CN'' \<or> attr_type a = ''2.5.4.3'')
          (\<lambda>a. ''CN='' @ escape_commas (attr_value a)) attrs @
        present (\<lambda>a. attr_type a = ''2.5.4.5'') (\<lambda>a. ''2.5.4.5=#1'') attrs @
        present (\<lambda>a. is_OU a \<and> attr_value a = ''DavPotRacTEST'') (\<lambda>a. ''OU=DavPotRacTEST'') attrs @
        present (\<lambda>a. is_OU a \<and> attr_value a \<noteq> [] \<and> list_all is_digit (attr_value a))
          (\<lambda>a. ''OU='' @ attr_value a) attrs @
        present (\<lambda>a. attr_shortName a = Some ''O'' \<or> attr_type a = ''2.5.4.10'')
          (\<lambda>a. ''O='' @ attr_value a) attrs @
        present (\<lambda>a. attr_shortName a = Some ''C'' \<or> attr_type a = ''2.5.4.6'')
          (\<lambda>a. ''C='' @ attr_value a) attrs)"

section \<open>A rendering layer that always fails\<close>


section \<open>Properties of the runtime helpers\<close>

subsection \<open>Decimal rendering\<close>

lemma digit_char_code:
  assumes "d < 10"
  shows "(of_char (digit_char d) :: nat) = 48 + d"
proof -
  have "list_all (\<lambda>d. (of_char (digit_char d) :: nat) = 48 + d) [0..<10]"
    by (simp add: upt_rec digit_char_def)
  with assms show ?thesis by (simp add: list_all_iff)
qed

lemma is_digit_digit_char: "d < 10 \<Longrightarrow> is_digit (digit_char d)"
  by (simp add: is_digit_def digit_char_code)

lemma digit_val_digit_char: "d < 10 \<Longrightarrow> digit_val (digit_char d) = d"
  by (simp add: digit_val_def digit_char_code)

lemma is_digit_zero: "is_digit CHR ''0''"
  by (simp add: is_digit_def)

lemma nat_toString_small: "n < 10 \<Longrightarrow> nat_toString n = [digit_char n]"
  by (subst nat_toString.simps) simp

lemma nat_toString_large:
  "10 \<le> n \<Longrightarrow> nat_toString n = nat_toString (n div 10) @ [digit_char (n mod 10)]"
  by (subst nat_toString.simps) simp

lemma nat_toString_digits: "list_all is_digit (nat_toString n)"
proof (induction n rule: nat_toString.induct)
  case (1 n)
  show ?case
  proof (cases "n < 10")
    case True
    then show ?thesis by (simp add: nat_toString_small is_digit_digit_char)
  next
    case False
    with "1.IH" show ?thesis by (simp add: nat_toString_large is_digit_digit_char)
  qed
qed


lemma length_nat_toString_le: "n < 10 ^ k \<Longrightarrow> 0 < k \<Longrightarrow> length (nat_toString n) \<le> k"
proof (induction n arbitrary: k rule: nat_toString.induct)
  case (1 n)
  show ?case
  proof (cases "n < 10")
    case True
    with "1.prems" show ?thesis by (simp add: nat_toString_small)
  next
    case False
    have "k \<noteq> Suc 0"
      using "1.prems" False by auto
    with "1.prems" obtain j where k: "k = Suc j" and j: "0 < j"
      by (cases k) auto
    from "1.prems" k have "n div 10 < 10 ^ j"
      by (simp add: less_mult_imp_div_less mult.commute)
    from "1.IH" [OF False this j] False k show ?thesis
      by (simp add: nat_toString_large)
  qed
qed


lemma dec_value_snoc: "dec_value (s @ [c]) = 10 * dec_value s + digit_val c"
  by (simp add: dec_value_def)

lemma dec_value_nat_toString: "dec_value (nat_toString n) = n"
proof (induction n rule: nat_toString.induct)
  case (1 n)
  show ?case
  proof (cases "n < 10")
    case True
    then show ?thesis by (simp add: nat_toString_small dec_value_def digit_val_digit_char)
  next
    case False
    with "1.IH" show ?thesis
      by (simp add: nat_toString_large dec_value_snoc digit_val_digit_char)
  qed
qed

lemma dec_value_zeros: "dec_value (replicate k CHR ''0'' @ s) = dec_value s"
proof -
  have "foldl (\<lambda>acc c. 10 * acc + digit_val c) 0 (replicate k CHR ''0'') = 0"
    by (induction k) (simp_all add: digit_val_def)
  then show ?thesis by (simp add: dec_value_def)
qed

lemma padStart_digits: "list_all is_digit s \<Longrightarrow> list_all is_digit (padStart s k CHR ''0'')"
  by (auto simp: padStart_def is_digit_zero list_all_iff)

lemma BigInt_dec_padStart: "BigInt_dec (padStart (nat_toString n) k CHR ''0'') = Some n"
proof -
  have "list_all is_digit (padStart (nat_toString n) k CHR ''0'')"
    by (rule padStart_digits) (rule nat_toString_digits)
  moreover have "dec_value (padStart (nat_toString n) k CHR ''0'') = n"
    by (simp add: padStart_def dec_value_zeros dec_value_nat_toString)
  ultimately show ?thesis by (simp add: BigInt_dec_def)
qed

lemma replicate_numeral_Cons: "replicate (numeral k) x = x # replicate (pred_numeral k) x"
  by (simp add: numeral_eq_Suc)

lemma length_padStart: "length (padStart s k c) = max k (length s)"
  by (simp add: padStart_def)

subsection \<open>Hexadecimal digits\<close>

lemma hex_char_code:
  assumes "d < 16"
  shows "(of_char (hex_char d) :: nat) = (if d < 10 then 48 + d else 87 + d)"
proof -
  have "list_all (\<lambda>d. (of_char (hex_char d) :: nat) = (if d < 10 then 48 + d else 87 + d)) [0..<16]"
    by (simp add: upt_rec hex_char_def)
  with assms show ?thesis by (simp add: list_all_iff)
qed

lemma char_eq_code: "c = d \<longleftrightarrow> (of_char c :: nat) = of_char d"
  by auto

lemma hex_val_less: "is_hex c \<Longrightarrow> hex_val c < 16"
  by (auto simp: is_hex_def hex_val_def Let_def)

lemma to_lower_code:
  "is_hex c \<Longrightarrow> (of_char (to_lower c) :: nat) = (if 65 \<le> (of_char c :: nat) \<and> (of_char c :: nat) \<le> 70 then of_char c + 32 else of_char c)"
  by (auto simp: is_hex_def to_lower_def Let_def)

lemma hex_char_hex_val: "is_hex c \<Longrightarrow> hex_char (hex_val c) = to_lower c"
  unfolding char_eq_code
  by (simp add: hex_char_code hex_val_less to_lower_code) (auto simp: is_hex_def hex_val_def Let_def)

lemma is_hex_to_lower: "is_hex c \<Longrightarrow> is_hex (to_lower c)"
  using to_lower_code [of c] by (auto simp: is_hex_def Let_def)

lemma hex_val_to_lower: "is_hex c \<Longrightarrow> hex_val (to_lower c) = hex_val c"
  using to_lower_code [of c] by (auto simp: is_hex_def hex_val_def Let_def)

lemma is_hex_not_space: "is_hex c \<Longrightarrow> \<not> is_space c"
  by (auto simp: is_hex_def is_space_def Let_def)

lemma hex_value_snoc: "hex_value (s @ [c]) = 16 * hex_value s + hex_val c"
  by (simp add: hex_value_def)

lemma hex_value_less: "list_all is_hex h \<Longrightarrow> hex_value h < 16 ^ length h"
proof (induction h rule: rev_induct)
  case Nil
  then show ?case by (simp add: hex_value_def)
next
  case (snoc c h)
  then have "hex_value h < 16 ^ length h" and "hex_val c < 16"
    by (simp_all add: hex_val_less)
  then have "16 * hex_value h + hex_val c < 16 * 16 ^ length h"
    by linarith
  then show ?case by (simp add: hex_value_snoc)
qed

lemma nat_toString16_step:
  "d < 16 \<Longrightarrow> nat_toString16 (16 * m + d) =
     (if m = 0 then [hex_char d] else nat_toString16 m @ [hex_char d])"
  by (subst nat_toString16.simps) auto

lemma padStart_snoc: "padStart (s @ [c]) (Suc k) p = padStart s k p @ [c]"
  by (simp add: padStart_def)

lemma nat_toString16_zero: "nat_toString16 0 = ''0''"
  by (subst nat_toString16.simps) (simp add: hex_char_def)

lemma nat_toString16_small: "d < 16 \<Longrightarrow> nat_toString16 d = [hex_char d]"
  by (subst nat_toString16.simps) simp

lemma padStart_hex_step:
  assumes "d < 16" and "0 < k"
  shows "padStart (nat_toString16 (16 * m + d)) (Suc k) CHR ''0'' =
         padStart (nat_toString16 m) k CHR ''0'' @ [hex_char d]"
proof (cases "m = 0")
  case True
  from \<open>0 < k\<close> have "replicate k CHR ''0'' = replicate (k - 1) CHR ''0'' @ ''0''"
    by (cases k) (simp_all add: replicate_append_same)
  with True assms show ?thesis
    by (simp add: nat_toString16_small nat_toString16_zero padStart_def)
next
  case False
  with assms show ?thesis
    by (simp add: nat_toString16_step padStart_snoc)
qed

lemma hex_round_trip:
  "list_all is_hex z \<Longrightarrow> z \<noteq> [] \<Longrightarrow>
     padStart (nat_toString16 (hex_value z)) (length z) CHR ''0'' = map to_lower z"
proof (induction z rule: rev_induct)
  case Nil
  then show ?case by simp
next
  case (snoc c z)
  then have c: "is_hex c" and z: "list_all is_hex z"
    by simp_all
  show ?case
  proof (cases "z = []")
    case True
    with c show ?thesis
      using nat_toString16_step [of "hex_val c" 0]
      by (simp add: hex_value_def hex_val_less padStart_def hex_char_hex_val)
  next
    case False
    with snoc.IH z have "padStart (nat_toString16 (hex_value z)) (length z) CHR ''0'' = map to_lower z"
      by simp
    moreover from False have "0 < length z" by simp
    ultimately show ?thesis
      using c by (simp add: hex_value_snoc padStart_hex_step hex_val_less hex_char_hex_val)
  qed
qed

lemma clean_hex: "list_all is_hex z \<Longrightarrow> filter (\<lambda>c. \<not> is_space c) z = z"
  by (induction z) (simp_all add: is_hex_not_space)

lemma hex_value_map_to_lower: "list_all is_hex z \<Longrightarrow> hex_value (map to_lower z) = hex_value z"
proof (induction z rule: rev_induct)
  case Nil
  then show ?case by simp
next
  case (snoc c z)
  then show ?case by (simp add: hex_value_snoc hex_val_to_lower)
qed

lemma list_all_hex_to_lower: "list_all is_hex z \<Longrightarrow> list_all is_hex (map to_lower z)"
  by (induction z) (simp_all add: is_hex_to_lower)

lemma trim_hex: "list_all is_hex h \<Longrightarrow> rev (dropWhile is_space (rev h)) = h"
  by (cases h rule: rev_cases) (simp_all add: is_hex_not_space)

lemma BigInt_hex_hex:
  assumes "list_all is_hex h" and "h \<noteq> []"
  shows "BigInt_hex h = Inr (hex_value h)"
  using assms by (simp add: BigInt_hex_def trim_hex)


lemma hexToDecimalPadded_hex:
  assumes "list_all is_hex z" and "z \<noteq> []"
  shows "hexToDecimalPadded z k = Inr (padStart (nat_toString (hex_value z)) k CHR ''0'')"
  using assms
  by (simp add: hexToDecimalPadded_def clean_hex BigInt_hex_hex list_all_hex_to_lower
      hex_value_map_to_lower)

lemma zoi_decimal_length:
  assumes "validateZOI z"
  shows "length (padStart (nat_toString (hex_value z)) 39 CHR ''0'') = 39"
proof -
  from assms have "hex_value z < 16 ^ 32"
    using hex_value_less [of z] by (simp add: validateZOI_def)
  also have "(16::nat) ^ 32 < 10 ^ 39" by simp
  finally have "length (nat_toString (hex_value z)) \<le> 39"
    by (rule length_nat_toString_le) simp
  then show ?thesis by (simp add: length_padStart)
qed

subsection \<open>Code128 splitting\<close>

lemma split_loop_eq:
  "split_loop codeData prefix a parts i result =
     result @ map (\<lambda>k. prefix @ nat_toString (k + 1) @ slice codeData (k * a) (k * a + a)) [i..<parts]"
proof (induction codeData prefix a parts i result rule: split_loop.induct)
  case (1 codeData prefix a parts i result)
  show ?case
  proof (cases "i < parts")
    case True
    then show ?thesis
      using "1.IH" [OF True refl refl refl refl]
      by (subst split_loop.simps) (simp add: upt_conv_Cons Let_def)
  next
    case False
    then show ?thesis by (subst split_loop.simps) simp
  qed
qed

lemma concat_slices:
  "concat (map (\<lambda>k. slice s (k * a) (k * a + a)) [0..<n]) = take (n * a) s"
proof (induction n)
  case 0
  then show ?case by simp
next
  case (Suc n)
  have "take (n * a) s @ take a (drop (n * a) s) = take (n * a + a) s"
    by (simp add: take_add)
  with Suc show ?case by (simp add: slice_def add.commute)
qed

lemma splitForCode128_eq:
  assumes "length codeData = 60" and "split_table parts = Some (dataPerPart, prefix)"
  shows "splitForCode128 codeData parts =
           Inr (map (\<lambda>k. prefix @ nat_toString (k + 1) @
                  slice codeData (k * (dataPerPart - (length prefix + 1)))
                    (k * (dataPerPart - (length prefix + 1)) + (dataPerPart - (length prefix + 1))))
                [0..<nat parts])"
proof -
  from assms(2) have "2 \<le> parts \<and> parts \<le> 6"
    by (auto simp: split_table_def split: if_splits)
  with assms show ?thesis
    by (simp add: splitForCode128_def split_loop_eq Let_def)
qed

lemma data_slice_part: "length sequenceNumber = 1 \<Longrightarrow> data_slice prefix (prefix @ sequenceNumber @ dataPart) = dataPart"
  by (simp add: data_slice_def)

text \<open>
  What the parts carry of the payload: the data slices, joined in emission order, are the
  first \<open>parts * (dataPerPart - length prefix - 1)\<close> characters of the payload.
\<close>

lemma splitForCode128_data:
  assumes "length codeData = 60" and "split_table parts = Some (dataPerPart, prefix)"
  shows "\<exists>ps. splitForCode128 codeData parts = Inr ps \<and>
           concat (map (data_slice prefix) ps) =
             take (nat parts * (dataPerPart - (length prefix + 1))) codeData"
proof -
  from assms(2) have "nat parts \<le> 6"
    by (auto simp: split_table_def split: if_splits)
  then have digit: "\<And>k. k < nat parts \<Longrightarrow> length (nat_toString (k + 1)) = 1"
    by (simp add: nat_toString_small)
  let ?a = "dataPerPart - (length prefix + 1)"
  let ?ps = "map (\<lambda>k. prefix @ nat_toString (k + 1) @ slice codeData (k * ?a) (k * ?a + ?a)) [0..<nat parts]"
  have "map (data_slice prefix) ?ps = map (\<lambda>k. slice codeData (k * ?a) (k * ?a + ?a)) [0..<nat parts]"
    using digit by (simp add: data_slice_part)
  then have "concat (map (data_slice prefix) ?ps) = take (nat parts * ?a) codeData"
    by (simp only: concat_slices)
  moreover have "splitForCode128 codeData parts = Inr ?ps"
    using assms by (rule splitForCode128_eq)
  ultimately show ?thesis by blast
qed

lemma upt_4: "[0..<4] = [0, 1, 2, 3 :: nat]"
  by (simp add: upt_rec)

subsection \<open>The control character\<close>

lemma parseInt_char_digit: "is_digit c \<Longrightarrow> parseInt_char c = Num (int (digit_val c))"
  by (simp add: parseInt_char_def is_digit_def digit_val_def)

lemma control_sum:
  "list_all is_digit s \<Longrightarrow>
     foldl (\<lambda>acc digit. jsnum_add acc (parseInt_char digit)) (Num a) s = Num (a + int (digit_sum s))"
proof (induction s arbitrary: a)
  case Nil
  then show ?case by (simp add: digit_sum_def)
next
  case (Cons c s)
  then show ?case by (simp add: parseInt_char_digit digit_sum_def add.assoc)
qed

lemma int_toString_nat: "int_toString (int n) = nat_toString n"
  by (simp add: int_toString_def)

lemma calculateControlCharacter_digits:
  assumes "list_all is_digit s"
  shows "calculateControlCharacter s = [digit_char (digit_sum s mod 10)]"
proof -
  have "jsnum_rem10 (Num (int (digit_sum s))) = Num (int (digit_sum s mod 10))"
    by (simp add: zmod_int)
  then show ?thesis
    using control_sum [OF assms, of 0]
    by (simp add: calculateControlCharacter_def int_toString_nat nat_toString_small)
qed

subsection \<open>The date\<close>

lemma slice_last_two: "slice_last (xs @ [a, b]) 2 = [a, b]"
  by (simp add: slice_last_def)

lemma mod_mult_div: "0 < a \<Longrightarrow> (n::nat) mod (a * b) div a = n div a mod b"
  by (simp add: mod_mult2_eq)

lemma mod_mult_mod: "(n::nat) mod (a * b) mod a = n mod a"
  by (simp add: mod_mult2_eq)

lemma nat_toString_last_two:
  assumes "10 \<le> n"
  shows "\<exists>xs. nat_toString n = xs @ two_digits (n mod 100)"
proof (cases "n div 10 < 10")
  case True
  with assms have "n < 100" by simp
  with assms True have "nat_toString n = [] @ two_digits (n mod 100)"
    by (simp add: nat_toString_large nat_toString_small two_digits_def)
  then show ?thesis by blast
next
  case False
  have "n mod 100 div 10 = n div 10 mod 10" and "n mod 100 mod 10 = n mod 10"
    using mod_mult_div [of 10 n 10] mod_mult_mod [of n 10 10] by simp_all
  with assms False have "nat_toString n = nat_toString (n div 10 div 10) @ two_digits (n mod 100)"
    by (simp add: nat_toString_large [of n] nat_toString_large [of "n div 10"] two_digits_def)
  then show ?thesis by blast
qed

lemma year_two_digits:
  assumes "10 \<le> \<bar>y\<bar>"
  shows "slice_last (int_toString y) 2 = two_digits (nat \<bar>y\<bar> mod 100)"
proof -
  from assms have "10 \<le> nat \<bar>y\<bar>" by simp
  from nat_toString_last_two [OF this] obtain xs where
    xs: "nat_toString (nat \<bar>y\<bar>) = xs @ two_digits (nat \<bar>y\<bar> mod 100)"
    by blast
  show ?thesis
  proof (cases "y < 0")
    case True
    then have "int_toString y = (CHR ''-'' # xs) @ two_digits (nat \<bar>y\<bar> mod 100)"
      using xs by (simp add: int_toString_def abs_if)
    then show ?thesis unfolding two_digits_def by (simp only: slice_last_two)
  next
    case False
    then have "int_toString y = xs @ two_digits (nat \<bar>y\<bar> mod 100)"
      using xs by (simp add: int_toString_def abs_if)
    then show ?thesis unfolding two_digits_def by (simp only: slice_last_two)
  qed
qed

lemma padStart_two_digits:
  assumes "0 \<le> i" and "i < 100"
  shows "padStart (int_toString i) 2 CHR ''0'' = two_digits (nat i)"
proof (cases "i < 10")
  case True
  with assms show ?thesis
    by (simp add: int_toString_def nat_toString_small padStart_def two_digits_def digit_char_def)
next
  case False
  with assms have "10 \<le> nat i" and "nat i div 10 < 10"
    by simp_all
  with assms show ?thesis
    by (simp add: int_toString_def nat_toString_large nat_toString_small padStart_def two_digits_def)
qed

lemma formatDateForCode_valid:
  assumes "date_in_range (Local_Date y mo d h mi s)" and "10 \<le> \<bar>y\<bar>"
  shows "formatDateForCode (Local_Date y mo d h mi s) =
           two_digits (nat \<bar>y\<bar> mod 100) @ two_digits (nat (mo + 1)) @ two_digits (nat d) @
           two_digits (nat h) @ two_digits (nat mi) @ two_digits (nat s)"
proof -
  from assms(1) have "padStart (int_toString (mo + 1)) 2 CHR ''0'' = two_digits (nat (mo + 1))"
    and "padStart (int_toString d) 2 CHR ''0'' = two_digits (nat d)"
    and "padStart (int_toString h) 2 CHR ''0'' = two_digits (nat h)"
    and "padStart (int_toString mi) 2 CHR ''0'' = two_digits (nat mi)"
    and "padStart (int_toString s) 2 CHR ''0'' = two_digits (nat s)"
    by (simp_all add: padStart_two_digits)
  then show ?thesis
    using year_two_digits [OF assms(2)]
    by (simp add: formatDateForCode_def Let_def)
qed

lemma two_digits_digits: "n < 100 \<Longrightarrow> list_all is_digit (two_digits n)"
  by (simp add: two_digits_def is_digit_digit_char)

lemma length_two_digits: "length (two_digits n) = 2"
  by (simp add: two_digits_def)

subsection \<open>The tax number\<close>





subsection \<open>The payload\<close>

lemma tax_number_padded:
  assumes "0 \<le> t" and "t \<le> 99999999"
  shows "length (padStart (int_toString t) 8 CHR ''0'') = 8"
    and "list_all is_digit (padStart (int_toString t) 8 CHR ''0'')"
    and "BigInt_dec (padStart (int_toString t) 8 CHR ''0'') = Some (nat t)"
proof -
  from assms have str: "int_toString t = nat_toString (nat t)"
    by (simp add: int_toString_def)
  from assms have "nat t < 10 ^ 8" by simp
  then have "length (nat_toString (nat t)) \<le> 8"
    by (rule length_nat_toString_le) simp
  then show "length (padStart (int_toString t) 8 CHR ''0'') = 8"
    by (simp add: str length_padStart)
  show "list_all is_digit (padStart (int_toString t) 8 CHR ''0'')"
    unfolding str by (rule padStart_digits) (rule nat_toString_digits)
  show "BigInt_dec (padStart (int_toString t) 8 CHR ''0'') = Some (nat t)"
    unfolding str by (rule BigInt_dec_padStart)
qed

lemma date_digits:
  assumes "date_in_range (Local_Date y mo d h mi s)" and "10 \<le> \<bar>y\<bar>"
  shows "length (formatDateForCode (Local_Date y mo d h mi s)) = 12"
    and "list_all is_digit (formatDateForCode (Local_Date y mo d h mi s))"
proof -
  note eq = formatDateForCode_valid [OF assms]
  show "length (formatDateForCode (Local_Date y mo d h mi s)) = 12"
    unfolding eq by (simp add: length_two_digits)
  from assms(1) have "nat (mo + 1) < 100" "nat d < 100" "nat h < 100" "nat mi < 100" "nat s < 100"
    by auto
  moreover have "nat \<bar>y\<bar> mod 100 < 100" by simp
  ultimately show "list_all is_digit (formatDateForCode (Local_Date y mo d h mi s))"
    unfolding eq by (simp add: two_digits_digits)
qed



subsection \<open>Evaluation at the reference inputs\<close>

lemma zoi_decimal_1:
  "hexToDecimalPadded ''a7e5f55e1dbb48b799268e1a6d8618a3'' 39 = Inr ''223175087923687075112234402528973166755''"
  by (simp add: hexToDecimalPadded_def BigInt_hex_def hex_value_def is_space_def to_lower_def
      is_hex_def hex_val_def nat_toString.simps padStart_def digit_char_def Let_def)

lemma zoi_decimal_2:
  "hexToDecimalPadded ''3024e56bf1ddd2e7eeb5715c6859a913'' 39 = Inr ''063994519708649896901260100447252359443''"
  by (simp add: hexToDecimalPadded_def BigInt_hex_def hex_value_def is_space_def to_lower_def
      is_hex_def hex_val_def nat_toString.simps padStart_def digit_char_def Let_def)

lemma date_2015: "formatDateForCode (Local_Date 2015 7 15 10 13 32) = ''150815101332''"
  by (simp add: formatDateForCode_def slice_last_def padStart_def int_toString_def
      nat_toString.simps digit_char_def)

lemma tax_12345678: "padStart (int_toString 12345678) 8 CHR ''0'' = ''12345678''"
  by (simp add: padStart_def int_toString_def nat_toString.simps digit_char_def)

lemma control_1:
  "calculateControlCharacter ''22317508792368707511223440252897316675512345678150815101332'' = ''1''"
  by (simp add: calculateControlCharacter_def parseInt_char_def is_digit_def int_toString_def
      nat_toString.simps digit_char_def)

lemma control_2:
  "calculateControlCharacter ''06399451970864989690126010044725235944312345678150815101332'' = ''0''"
  by (simp add: calculateControlCharacter_def parseInt_char_def is_digit_def int_toString_def
      nat_toString.simps digit_char_def)





subsection \<open>UTF-8\<close>

lemma code_point_digits:
  fixes cp :: nat
  obtains a b c f where "a < 64" and "b < 64" and "c < 64"
    and "cp = 262144 * f + 4096 * c + 64 * b + a"
    and "cp mod 64 = a" and "cp div 64 mod 64 = b" and "cp div 4096 mod 64 = c"
    and "cp div 262144 = f" and "cp div 4096 = 64 * f + c" and "cp div 64 = 4096 * f + 64 * c + b"
proof -
  let ?d = "cp div 64"
  let ?e = "?d div 64"
  let ?f = "?e div 64"
  have e: "cp div 4096 = ?e"
    using div_mult2_eq [of cp 64 64] by simp
  have f: "cp div 262144 = ?f"
    using div_mult2_eq [of cp 4096 64] e by simp
  have 1: "cp = 64 * ?d + cp mod 64" by simp
  have 2: "?d = 64 * ?e + ?d mod 64" by simp
  have 3: "?e = 64 * ?f + ?e mod 64" by simp
  show thesis
  proof (rule that [of "cp mod 64" "?d mod 64" "?e mod 64" ?f])
    show "cp mod 64 < 64" "?d mod 64 < 64" "?e mod 64 < 64" by simp_all
    show "cp = 262144 * ?f + 4096 * (?e mod 64) + 64 * (?d mod 64) + cp mod 64"
      using 1 2 3 by linarith
    show "cp mod 64 = cp mod 64" "cp div 64 mod 64 = ?d mod 64" by simp_all
    show "cp div 4096 mod 64 = ?e mod 64" by (simp only: e)
    show "cp div 262144 = ?f" by (rule f)
    show "cp div 4096 = 64 * ?f + ?e mod 64" using e 3 by linarith
    show "cp div 64 = 4096 * ?f + 64 * (?e mod 64) + ?d mod 64" using 2 3 by linarith
  qed
qed

lemma utf8_decode_ascii: "b0 < 0x80 \<Longrightarrow> utf8_decode (b0 # bs) = b0 # utf8_decode bs"
  by (simp add: utf8_decode.simps(2))

lemma utf8_decode_two:
  assumes "0xC2 \<le> b0" and "b0 \<le> 0xDF" and "is_cont b1"
  shows "utf8_decode (b0 # b1 # bs) = ((b0 - 0xC0) * 64 + (b1 - 0x80)) # utf8_decode bs"
  using assms by (simp add: utf8_decode.simps(2))

lemma utf8_decode_three:
  assumes "0xE0 \<le> b0" and "b0 \<le> 0xEF" and "second_lower b0 \<le> b1" and "b1 \<le> second_upper b0"
    and "is_cont b2"
  shows "utf8_decode (b0 # b1 # b2 # bs) =
           ((b0 - 0xE0) * 4096 + (b1 - 0x80) * 64 + (b2 - 0x80)) # utf8_decode bs"
  using assms by (simp add: utf8_decode.simps(2))

lemma utf8_decode_four:
  assumes "0xF0 \<le> b0" and "b0 \<le> 0xF4" and "second_lower b0 \<le> b1" and "b1 \<le> second_upper b0"
    and "is_cont b2" and "is_cont b3"
  shows "utf8_decode (b0 # b1 # b2 # b3 # bs) =
           ((b0 - 0xF0) * 262144 + (b1 - 0x80) * 4096 + (b2 - 0x80) * 64 + (b3 - 0x80)) # utf8_decode bs"
  using assms by (simp add: utf8_decode.simps(2))

lemma utf8_decode_encode_cp:
  assumes "is_scalar cp"
  shows "utf8_decode (utf8_encode_cp cp @ rest) = cp # utf8_decode rest"
proof -
  obtain a b c f where a: "a < 64" and b: "b < 64" and c: "c < 64"
    and cp: "cp = 262144 * f + 4096 * c + 64 * b + a"
    and m: "cp mod 64 = a" "cp div 64 mod 64 = b" "cp div 4096 mod 64 = c"
    and d: "cp div 262144 = f" "cp div 4096 = 64 * f + c" "cp div 64 = 4096 * f + 64 * c + b"
    by (rule code_point_digits)
  have m2: "(4096 * f + 64 * c + b) mod 64 = b"
    using m(2) unfolding d(3) .
  have m3: "(64 * f + c) mod 64 = c"
    using m(3) unfolding d(2) .
  from assms have top: "cp < 0x110000" and sur: "cp < 0xD800 \<or> 0xDFFF < cp"
    by (auto simp: is_scalar_def)
  consider (one) "cp < 0x80" | (two) "0x80 \<le> cp" "cp < 0x800"
    | (three) "0x800 \<le> cp" "cp < 0x10000" | (four) "0x10000 \<le> cp"
    by linarith
  then show ?thesis
  proof cases
    case one
    then show ?thesis by (simp add: utf8_encode_cp_def utf8_decode_ascii)
  next
    case two
    then have enc: "utf8_encode_cp cp = [0xC0 + (64 * c + b + 4096 * f), 0x80 + a]"
      by (simp add: utf8_encode_cp_def m d add.commute add.left_commute)
    from two cp have f: "f = 0" and c0: "c = 0"
      by linarith+
    with two cp a have "2 \<le> b" and "b < 32"
      by linarith+
    with a cp f c0 show ?thesis
      unfolding enc by (simp add: utf8_decode_two is_cont_def)
  next
    case three
    with sur b c have enc: "utf8_encode_cp cp = [0xE0 + (64 * f + c), 0x80 + b, 0x80 + a]"
      by (auto simp: utf8_encode_cp_def m d m2)
    from three cp have f: "f = 0" and c16: "c < 16"
      by linarith+
    have lo: "second_lower (0xE0 + c) \<le> 0x80 + b"
      using three cp a b f by (simp add: second_lower_def, linarith?)
    have hi: "0x80 + b \<le> second_upper (0xE0 + c)"
      using sur cp a b f c16 by (simp add: second_upper_def, linarith?)
    show ?thesis
      unfolding enc using a b c16 f lo hi cp
      by (simp add: utf8_decode_three is_cont_def)
  next
    case four
    with b c have enc: "utf8_encode_cp cp = [0xF0 + f, 0x80 + c, 0x80 + b, 0x80 + a]"
      by (simp add: utf8_encode_cp_def m d m2 m3)
    from top cp have f: "f \<le> 4"
      by linarith
    have lo: "second_lower (0xF0 + f) \<le> 0x80 + c"
      using four cp a b by (simp add: second_lower_def, linarith?)
    have hi: "0x80 + c \<le> second_upper (0xF0 + f)"
      using top cp a b c f by (simp add: second_upper_def, linarith?)
    show ?thesis
      unfolding enc using a b c f lo hi cp
      by (simp add: utf8_decode_four is_cont_def)
  qed
qed

lemma utf8_round_trip:
  "list_all is_scalar s \<Longrightarrow> Buffer_toString_utf8 (Buffer_from_utf8 s) = s"
  by (induction s) (simp_all add: Buffer_toString_utf8_def Buffer_from_utf8_def utf8_decode_encode_cp)

subsection \<open>Base64\<close>

lemma b64_char_facts:
  assumes "i < 64"
  shows "unbase64 (b64_char i) = Some i" and "b64_char i \<noteq> CHR ''=''"
    and "b64_char i \<noteq> CHR ''-''" and "b64_char i \<noteq> CHR ''_''"
    and "i < 62 \<Longrightarrow> b64_char i \<noteq> CHR ''+'' \<and> b64_char i \<noteq> CHR ''/''"
proof -
  have "list_all (\<lambda>i. unbase64 (b64_char i) = Some i \<and> b64_char i \<noteq> CHR ''='' \<and>
          b64_char i \<noteq> CHR ''-'' \<and> b64_char i \<noteq> CHR ''_'' \<and>
          (i < 62 \<longrightarrow> b64_char i \<noteq> CHR ''+'' \<and> b64_char i \<noteq> CHR ''/'')) [0..<64]"
    by (simp add: upt_rec b64_char_def unbase64_def)
  with assms show "unbase64 (b64_char i) = Some i" and "b64_char i \<noteq> CHR ''=''"
    and "b64_char i \<noteq> CHR ''-''" and "b64_char i \<noteq> CHR ''_''"
    and "i < 62 \<Longrightarrow> b64_char i \<noteq> CHR ''+'' \<and> b64_char i \<noteq> CHR ''/''"
    by (simp_all add: list_all_iff)
qed

lemma b64_char_62: "b64_char 62 = CHR ''+''"
  by (simp add: b64_char_def)

lemma b64_char_63: "b64_char 63 = CHR ''/''"
  by (simp add: b64_char_def)

lemma base64_encode_sextets:
  "base64_encode bs = map b64_char (sextets bs) @ replicate ((3 - length bs mod 3) mod 3) CHR ''=''"
proof (induction bs rule: sextets.induct)
  case 1
  show ?case by simp
next
  case (2 a)
  show ?case by (simp add: replicate_numeral_Cons)
next
  case (3 a b)
  show ?case by (simp add: replicate_numeral_Cons)
next
  case (4 a b c rest)
  have "length (a # b # c # rest) mod 3 = length rest mod 3"
    using mod_add_self2 [of "length rest" 3] by simp
  with 4 show ?case by (simp del: length_Cons list.size)
qed

lemma sextets_less: "list_all (\<lambda>b. b < 256) bs \<Longrightarrow> list_all (\<lambda>i. i < 64) (sextets bs)"
proof (induction bs rule: sextets.induct)
  case (4 a b c rest)
  then have "a div 4 < 64" "a mod 4 * 16 + b div 16 < 64" "b mod 16 * 4 + c div 64 < 64" "c mod 64 < 64"
    by (simp_all add: less_mult_imp_div_less) linarith+
  with 4 show ?case by simp
next
  case (3 a b)
  then have "a div 4 < 64" "a mod 4 * 16 + b div 16 < 64" "b mod 16 * 4 < 64"
    by (simp_all add: less_mult_imp_div_less) linarith+
  then show ?case by simp
next
  case (2 a)
  then have "a div 4 < 64" "a mod 4 * 16 < 64"
    by (simp_all add: less_mult_imp_div_less)
  then show ?case by simp
qed simp

lemma div_mod_combine:
  fixes x y k :: nat
  assumes "y < k"
  shows "(x * k + y) div k = x" and "(x * k + y) mod k = y"
  using assms by simp_all

lemma decode_sextets_sextets: "list_all (\<lambda>b. b < 256) bs \<Longrightarrow> decode_sextets (sextets bs) = bs"
proof (induction bs rule: sextets.induct)
  case 1
  then show ?case by simp
next
  case (2 a)
  have "a div 4 * 4 + a mod 4 * 16 div 16 = a"
    by simp
  then show ?case by simp
next
  case (3 a b)
  then have b: "b div 16 < 16" by (simp add: less_mult_imp_div_less)
  have "a div 4 * 4 + (a mod 4 * 16 + b div 16) div 16 = a"
    using div_mod_combine(1) [OF b, of "a mod 4"] by simp
  moreover have "(a mod 4 * 16 + b div 16) mod 16 * 16 + b mod 16 * 4 div 4 = b"
    using div_mod_combine(2) [OF b, of "a mod 4"] by simp
  ultimately show ?case by simp
next
  case (4 a b c rest)
  then have b: "b div 16 < 16" and c: "c div 64 < 4" by (simp_all add: less_mult_imp_div_less)
  have "a div 4 * 4 + (a mod 4 * 16 + b div 16) div 16 = a"
    using div_mod_combine(1) [OF b, of "a mod 4"] by simp
  moreover have "(a mod 4 * 16 + b div 16) mod 16 * 16 + (b mod 16 * 4 + c div 64) div 4 = b"
    using div_mod_combine(2) [OF b, of "a mod 4"] div_mod_combine(1) [OF c, of "b mod 16"] by simp
  moreover have "(b mod 16 * 4 + c div 64) mod 4 * 64 + c mod 64 = c"
    using div_mod_combine(2) [OF c, of "b mod 16"] by simp
  ultimately show ?case using 4 by simp
qed

lemma utf8_encode_cp_bytes:
  assumes "is_scalar cp"
  shows "list_all (\<lambda>b. b < 256) (utf8_encode_cp cp)"
proof -
  from assms have top: "cp < 0x110000"
    by (simp add: is_scalar_def)
  have 2: "cp div 64 < 32" if "cp < 0x800"
    using that by (simp add: less_mult_imp_div_less)
  have 3: "cp div 4096 < 16" if "cp < 0x10000"
    using that by (simp add: less_mult_imp_div_less)
  have 4: "cp div 262144 < 5"
    using top by (simp add: less_mult_imp_div_less)
  have m: "x mod 64 < 64" for x :: nat
    by simp
  show ?thesis
    using 2 3 4 m [of cp] m [of "cp div 64"] m [of "cp div 4096"]
    by (auto simp: utf8_encode_cp_def)
qed

lemma Buffer_from_utf8_bytes: "list_all is_scalar s \<Longrightarrow> list_all (\<lambda>b. b < 256) (Buffer_from_utf8 s)"
  by (induction s) (simp_all add: Buffer_from_utf8_def utf8_encode_cp_bytes)

lemma replace_all_Nil: "replace_all x r [] = []"
  by (simp add: replace_all_def)

lemma replace_all_Cons: "replace_all x r (c # s) = (if c = x then r else [c]) @ replace_all x r s"
  by (simp add: replace_all_def)

lemma replace_all_replicate_other: "c \<noteq> x \<Longrightarrow> replace_all x r (replicate n c) = replicate n c"
  by (induction n) (simp_all add: replace_all_Nil replace_all_Cons)

lemma replace_all_replicate_same: "replace_all x [] (replicate n x) = []"
  by (induction n) (simp_all add: replace_all_Nil replace_all_Cons)

lemma url_step:
  assumes "i < 64"
  shows "replace_all CHR ''='' [] (replace_all CHR ''/'' ''_'' (replace_all CHR ''+'' ''-'' (b64_char i # rest)))
         = b64url_char i #
           replace_all CHR ''='' [] (replace_all CHR ''/'' ''_'' (replace_all CHR ''+'' ''-'' rest))"
proof -
  consider "i = 62" | "i = 63" | "i < 62"
    using assms by linarith
  then show ?thesis
  proof cases
    case 1
    then show ?thesis by (simp add: b64url_char_def b64_char_62 replace_all_Cons)
  next
    case 2
    then show ?thesis by (simp add: b64url_char_def b64_char_63 replace_all_Cons)
  next
    case 3
    with b64_char_facts(5) [OF assms] b64_char_facts(2) [OF assms] show ?thesis
      by (simp add: b64url_char_def replace_all_Cons)
  qed
qed

lemma url_form:
  assumes "list_all (\<lambda>i. i < 64) sx"
  shows "replace_all CHR ''='' [] (replace_all CHR ''/'' ''_'' (replace_all CHR ''+'' ''-''
           (map b64_char sx @ replicate p CHR ''=''))) = map b64url_char sx"
  using assms
proof (induction sx)
  case Nil
  show ?case by (simp add: replace_all_replicate_other replace_all_replicate_same)
next
  case (Cons i sx)
  then show ?case by (simp add: url_step)
qed

lemma standard_step:
  assumes "i < 64"
  shows "replace_all CHR ''_'' ''/'' (replace_all CHR ''-'' ''+'' (b64url_char i # rest))
         = b64_char i # replace_all CHR ''_'' ''/'' (replace_all CHR ''-'' ''+'' rest)"
  using b64_char_facts(3,4) [OF assms]
  by (simp add: b64url_char_def b64_char_62 b64_char_63 replace_all_Cons)

lemma standard_form:
  assumes "list_all (\<lambda>i. i < 64) sx"
  shows "replace_all CHR ''_'' ''/'' (replace_all CHR ''-'' ''+'' (map b64url_char sx @ replicate q CHR ''=''))
         = map b64_char sx @ replicate q CHR ''=''"
  using assms
proof (induction sx)
  case Nil
  show ?case by (simp add: replace_all_replicate_other)
next
  case (Cons i sx)
  then show ?case by (simp add: standard_step)
qed

lemma Buffer_from_base64_sextets:
  assumes "list_all (\<lambda>i. i < 64) sx"
  shows "Buffer_from_base64 (map b64_char sx @ replicate q CHR ''='') = decode_sextets sx"
proof -
  have "takeWhile (\<lambda>c. c \<noteq> CHR ''='') (map b64_char sx @ replicate q CHR ''='') = map b64_char sx"
    using assms
  proof (induction sx)
    case Nil
    show ?case by (cases q) simp_all
  next
    case (Cons i sx)
    then show ?case by (simp add: b64_char_facts(2))
  qed
  moreover have "List.map_filter unbase64 (map b64_char sx) = sx"
    using assms by (induction sx) (simp_all add: List.map_filter_simps b64_char_facts(1))
  ultimately show ?thesis by (simp add: Buffer_from_base64_def)
qed

lemma base64urlEncode_sextets:
  assumes "list_all (\<lambda>b. b < 256) bs"
  shows "replace_all CHR ''='' [] (replace_all CHR ''/'' ''_'' (replace_all CHR ''+'' ''-'' (base64_encode bs)))
         = map b64url_char (sextets bs)"
  unfolding base64_encode_sextets using sextets_less [OF assms] by (rule url_form)

lemma base64urlDecode_sextets:
  assumes "list_all (\<lambda>b. b < 256) bs"
  shows "base64urlDecode (map b64url_char (sextets bs)) = Buffer_toString_utf8 bs"
proof -
  note sx = sextets_less [OF assms]
  obtain q where "paddedData (map b64url_char (sextets bs)) = map b64url_char (sextets bs) @ replicate q CHR ''=''"
    by (simp add: paddedData_def Let_def)
  then show ?thesis
    by (simp add: base64urlDecode_def standard_form [OF sx] Buffer_from_base64_sextets [OF sx]
        decode_sextets_sextets [OF assms])
qed

lemma paddedData_length: "length (paddedData data) mod 4 = 0"
proof -
  have "(n + (4 - n mod 4) mod 4) mod 4 = 0" for n :: nat
  proof -
    have eq: "(n + (4 - n mod 4) mod 4) mod 4 = (n mod 4 + (4 - n mod 4) mod 4) mod 4"
      by (rule mod_add_left_eq [symmetric])
    have "n mod 4 < 4" by simp
    then consider "n mod 4 = 0" | "n mod 4 = 1" | "n mod 4 = 2" | "n mod 4 = 3"
      by linarith
    then have "(n mod 4 + (4 - n mod 4) mod 4) mod 4 = 0"
      by cases simp_all
    with eq show ?thesis by simp
  qed
  then show ?thesis by (simp add: paddedData_def Let_def)
qed

lemma paddedData_aligned: "length data mod 4 = 0 \<Longrightarrow> paddedData data = data"
  by (simp add: paddedData_def Let_def)

subsection \<open>Splitting at the dots\<close>

lemma split_on_nonempty: "split_on sep s \<noteq> []"
  by (induction s) (auto split: list.splits)

lemma length_split_on: "length (split_on sep s) = Suc (length (filter (\<lambda>c. c = sep) s))"
proof (induction s)
  case Nil
  show ?case by simp
next
  case (Cons c s)
  with split_on_nonempty [of sep s] show ?case
    by (cases "split_on sep s") auto
qed

lemma decode_e30: "base64urlDecode ''e30'' = [123, 125]"
  by (simp add: base64urlDecode_def paddedData_def replace_all_def Buffer_from_base64_def
      List.map_filter_simps unbase64_def Buffer_toString_utf8_def utf8_decode_ascii Let_def)

lemma decode_x: "base64urlDecode ''x'' = []"
  by (simp add: base64urlDecode_def paddedData_def replace_all_def Buffer_from_base64_def
      List.map_filter_simps unbase64_def Buffer_toString_utf8_def Let_def replicate_numeral_Cons)

subsection \<open>The subject of a certificate\<close>

lemma replace_all_absent: "x \<notin> set s \<Longrightarrow> replace_all x r s = s"
  by (induction s) (auto simp: replace_all_def)

lemma escape_commas_replace: "escape_commas v = replace_all CHR '','' [CHR 0x5C, CHR '',''] v"
  by (simp add: escape_commas_def replace_all_def)

lemma all_digits_iff: "all_digits v \<longleftrightarrow> v \<noteq> [] \<and> list_all is_digit v"
  by (cases v) (simp_all add: all_digits_def)

lemma find_filter: "find P (filter Q xs) = find (\<lambda>a. Q a \<and> P a) xs"
  by (induction xs) simp_all

lemma subject_of_spec: "subject_of attrs = subject_identity_spec attrs"
proof -
  have marker: "attr_value a = ''DavPotRacTEST''"
    if "find (\<lambda>a. is_OU a \<and> attr_value a = ''DavPotRacTEST'') xs = Some a" for xs and a :: cert_attr
    using that by (auto simp: find_Some_iff)
  have ou: "(\<lambda>attr. attr_shortName attr = Some ''OU'' \<or> attr_type attr = ''2.5.4.11'') = is_OU"
    by (simp add: is_OU_def fun_eq_iff)
  have digits: "(\<lambda>ou. all_digits (attr_value ou)) = (\<lambda>a :: cert_attr. attr_value a \<noteq> [] \<and> list_all is_digit (attr_value a))"
    by (simp add: all_digits_iff)
  show ?thesis
    unfolding subject_of_def subject_identity_spec_def present_def Let_def ou digits find_filter
      escape_commas_replace
    by (auto split: option.splits simp: replace_all_absent dest: marker)
qed

subsection \<open>The generator\<close>

lemma await_Inl: "await (Inl e) continue = Inl e"
  by (simp add: await_def)

lemma await_Inr: "await (Inr v) continue = continue v"
  by (simp add: await_def)











subsection \<open>The payload for a year of two digits or more\<close>

text \<open>
  For a ZOI of 32 hexadecimal characters, a tax number from 0 to 99999999 and a valid
  date whose year has two digits or more, the payload is the ZOI in 39 decimal digits, the
  tax number in 8, the date in 12 and the control digit, whose value is the sum of the 59
  digits before it modulo 10: 60 characters, all of them digits.
\<close>

lemma formatCodeData_payload:
  assumes zoi: "validateZOI zoi"
    and tax: "0 \<le> taxNumber" "taxNumber \<le> 99999999"
    and date: "date_in_range (Local_Date y mo d h mi s)" "10 \<le> \<bar>y\<bar>"
  shows "\<exists>z t dt c. formatCodeData zoi taxNumber (Local_Date y mo d h mi s) = Inr (z @ t @ dt @ [c]) \<and>
           length z = 39 \<and> BigInt_dec z = Some (hex_value zoi) \<and>
           length t = 8 \<and> BigInt_dec t = Some (nat taxNumber) \<and>
           dt = two_digits (nat \<bar>y\<bar> mod 100) @ two_digits (nat (mo + 1)) @ two_digits (nat d) @
                two_digits (nat h) @ two_digits (nat mi) @ two_digits (nat s) \<and>
           length dt = 12 \<and>
           list_all is_digit (z @ t @ dt @ [c]) \<and>
           digit_val c = digit_sum (z @ t @ dt) mod 10 \<and>
           length (z @ t @ dt @ [c]) = 60"
proof -
  let ?z = "padStart (nat_toString (hex_value zoi)) 39 CHR ''0''"
  let ?t = "padStart (int_toString taxNumber) 8 CHR ''0''"
  let ?dt = "formatDateForCode (Local_Date y mo d h mi s)"
  let ?c = "digit_char (digit_sum (?z @ ?t @ ?dt) mod 10)"
  from zoi have hex: "list_all is_hex zoi" and ne: "zoi \<noteq> []"
    by (auto simp: validateZOI_def)
  have z: "hexToDecimalPadded zoi 39 = Inr ?z"
    using hex ne by (rule hexToDecimalPadded_hex)
  have zlen: "length ?z = 39"
    using zoi by (rule zoi_decimal_length)
  have zdig: "list_all is_digit ?z"
    by (rule padStart_digits) (rule nat_toString_digits)
  have zval: "BigInt_dec ?z = Some (hex_value zoi)"
    by (rule BigInt_dec_padStart)
  note t = tax_number_padded [OF tax]
  note dt = date_digits [OF date]
  have body: "list_all is_digit (?z @ ?t @ ?dt)"
    using zdig t(2) dt(2) by simp
  then have ctrl: "calculateControlCharacter (?z @ ?t @ ?dt) = [?c]"
    by (rule calculateControlCharacter_digits)
  have cdig: "is_digit ?c" and cval: "digit_val ?c = digit_sum (?z @ ?t @ ?dt) mod 10"
    by (simp_all add: is_digit_digit_char digit_val_digit_char)
  have "formatCodeData zoi taxNumber (Local_Date y mo d h mi s) = Inr (?z @ ?t @ ?dt @ [?c])"
    using ctrl by (simp add: formatCodeData_def z Let_def)
  moreover have "list_all is_digit (?z @ ?t @ ?dt @ [?c])"
    using body cdig by simp
  moreover have "length (?z @ ?t @ ?dt @ [?c]) = 60"
    using zlen t(1) dt(1) by simp
  moreover note zlen zval t(1) t(3) formatDateForCode_valid [OF date] dt(1) cval
  ultimately show ?thesis by blast
qed

section \<open>The claims\<close>

subsection \<open>C1: joining the data slices of the Code128 parts\<close>

text \<open>
  Claim C1 says that for a payload of 60 digits and a number of parts from 2 to 6, the data
  slices of the parts of \<open>splitForCode128\<close>, joined in emission order, are the payload.
  The code takes its constant \<open>dataPerPart\<close> (30, 20, 15, 12, 10: a sixtieth share of the
  payload each) for the length of the whole part and cuts only \<open>dataPerPart - length prefix - 1\<close>
  characters per part, so the tail of the payload is in no part (lemma
  \<open>splitForCode128_data\<close>). At the payload of the reference test and two parts, the parts
  carry the first 56 digits; the last four, with the control digit, are lost.
\<close>

theorem splitForCode128_drops_digits:
  "splitForCode128 ''223175087923687075112234402528973166755123456781508151013321'' 2 =
     Inr [''412231750879236870751122344025'', ''422897316675512345678150815101''] \<and>
   concat (map (data_slice ''4'') [''412231750879236870751122344025'', ''422897316675512345678150815101'']) =
     ''22317508792368707511223440252897316675512345678150815101'' \<and>
   ''22317508792368707511223440252897316675512345678150815101'' \<noteq>
     ''223175087923687075112234402528973166755123456781508151013321''"
  by (simp add: splitForCode128_def split_table_def split_loop.simps slice_def nat_toString.simps digit_char_def data_slice_def)

subsection \<open>C2: the payload of 60 digits\<close>

text \<open>
  Claim C2 says that for a ZOI of 32 hexadecimal characters, a tax number from 0 to
  99999999 and every date, \<open>formatCodeData\<close> returns 60 characters: the ZOI in 39 decimal
  digits, the tax number in 8, the date in 12 and a control digit, the sum of the 59 digits
  before it modulo 10. The source documents the same: the date is \<open>YYMMDDHHMMSS\<close>, 12
  digits, and the result a string of 60 digits. But the year is cut with \<open>slice(-2)\<close> and,
  unlike the five fields after it, never padded with \<open>padStart(2, '0')\<close>. So the claim
  fails in the code: for the valid date of 4 March of the year 5, 01:02:03, the date has
  the 11 characters \<open>50304010203\<close> and the payload has 59.
\<close>

theorem formatCodeData_short_year:
  "validateZOI ''a7e5f55e1dbb48b799268e1a6d8618a3'' \<and>
   date_in_range (Local_Date 5 2 4 1 2 3) \<and>
   formatDateForCode (Local_Date 5 2 4 1 2 3) = ''50304010203'' \<and>
   formatCodeData ''a7e5f55e1dbb48b799268e1a6d8618a3'' 12345678 (Local_Date 5 2 4 1 2 3) =
     Inr ''22317508792368707511223440252897316675512345678503040102039'' \<and>
   length ''22317508792368707511223440252897316675512345678503040102039'' = 59"
  by (simp add: validateZOI_def is_hex_def formatCodeData_def zoi_decimal_1 tax_12345678
      formatDateForCode_def slice_last_def padStart_def int_toString_def nat_toString.simps
      digit_char_def calculateControlCharacter_def parseInt_char_def is_digit_def)

subsection \<open>C3: the reference vectors\<close>

text \<open>
  Claim C3: for the ZOI \<open>a7e5f55e1dbb48b799268e1a6d8618a3\<close>, the tax number 12345678 and
  the local time 2015-08-15 10:13:32 (month 7 counted from 0), \<open>formatCodeData\<close> returns
  \<open>223175087923687075112234402528973166755123456781508151013321\<close>, whose first 39 digits
  are the decimal ZOI and whose control digit is 1; for the ZOI
  \<open>3024e56bf1ddd2e7eeb5715c6859a913\<close> the decimal ZOI is
  \<open>063994519708649896901260100447252359443\<close> and the control digit is 0.
\<close>

theorem formatCodeData_reference_vectors:
  "formatCodeData ''a7e5f55e1dbb48b799268e1a6d8618a3'' 12345678 (Local_Date 2015 7 15 10 13 32) =
     Inr ''223175087923687075112234402528973166755123456781508151013321'' \<and>
   hexToDecimalPadded ''a7e5f55e1dbb48b799268e1a6d8618a3'' 39 =
     Inr ''223175087923687075112234402528973166755'' \<and>
   take 39 ''223175087923687075112234402528973166755123456781508151013321'' =
     ''223175087923687075112234402528973166755'' \<and>
   last ''223175087923687075112234402528973166755123456781508151013321'' = CHR ''1'' \<and>
   hexToDecimalPadded ''3024e56bf1ddd2e7eeb5715c6859a913'' 39 =
     Inr ''063994519708649896901260100447252359443'' \<and>
   formatCodeData ''3024e56bf1ddd2e7eeb5715c6859a913'' 12345678 (Local_Date 2015 7 15 10 13 32) =
     Inr ''063994519708649896901260100447252359443123456781508151013320'' \<and>
   last ''063994519708649896901260100447252359443123456781508151013320'' = CHR ''0''"
  by (simp add: formatCodeData_def zoi_decimal_1 zoi_decimal_2 date_2015 tax_12345678
      control_1 control_2)

subsection \<open>C4: the decimal ZOI and its way back to hexadecimal\<close>

text \<open>
  Claim C4 says that for a string \<open>z\<close> of 32 hexadecimal characters the result of
  \<open>hexToDecimalPadded z 39\<close> has length 39 and that the decimal string, turned into a big
  integer and rendered in hexadecimal, is \<open>z\<close> up to the case of the letters. The
  rendering of a big integer has no leading zero, so the claim fails for every \<open>z\<close> that
  starts with \<open>0\<close>: for \<open>00000000000000000000000000000001\<close> the way back gives \<open>1\<close>.
\<close>

theorem hexToDecimalPadded_round_trip_counterexample:
  "hexToDecimalPadded ''00000000000000000000000000000001'' 39 =
     Inr ''000000000000000000000000000000000000001'' \<and>
   BigInt_dec ''000000000000000000000000000000000000001'' = Some 1 \<and>
   nat_toString16 1 = ''1'' \<and>
   ''1'' \<noteq> map to_lower ''00000000000000000000000000000001''"
  by (simp add: hexToDecimalPadded_def BigInt_hex_def hex_value_def is_space_def to_lower_def
      is_hex_def hex_val_def nat_toString.simps padStart_def digit_char_def Let_def
      BigInt_dec_def dec_value_def digit_val_def is_digit_def nat_toString16.simps hex_char_def
      replicate_numeral_Cons)

text \<open>
  C4 as amended: the length is 39, and the hexadecimal rendering of the decimal string,
  padded on the left with \<open>0\<close> to 32 characters, is \<open>z\<close> in lower case.
\<close>

theorem hexToDecimalPadded_round_trip:
  assumes "validateZOI z"
  shows "\<exists>d n. hexToDecimalPadded z 39 = Inr d \<and> length d = 39 \<and> BigInt_dec d = Some n \<and>
           padStart (nat_toString16 n) 32 CHR ''0'' = map to_lower z"
proof -
  from assms have hex: "list_all is_hex z" and len: "length z = 32"
    by (simp_all add: validateZOI_def)
  then have ne: "z \<noteq> []" by auto
  let ?d = "padStart (nat_toString (hex_value z)) 39 CHR ''0''"
  have "hexToDecimalPadded z 39 = Inr ?d"
    using hex ne by (rule hexToDecimalPadded_hex)
  moreover have "length ?d = 39"
    using assms by (rule zoi_decimal_length)
  moreover have "BigInt_dec ?d = Some (hex_value z)"
    by (rule BigInt_dec_padStart)
  moreover have "padStart (nat_toString16 (hex_value z)) 32 CHR ''0'' = map to_lower z"
    using hex_round_trip [OF hex ne] len by simp
  ultimately show ?thesis by blast
qed

theorem hexToDecimalPadded_round_trip_witness:
  "validateZOI ''3024E56BF1DDD2E7EEB5715C6859A913'' \<and>
   (\<exists>d n. hexToDecimalPadded ''3024E56BF1DDD2E7EEB5715C6859A913'' 39 = Inr d \<and> length d = 39 \<and>
      BigInt_dec d = Some n \<and>
      padStart (nat_toString16 n) 32 CHR ''0'' = map to_lower ''3024E56BF1DDD2E7EEB5715C6859A913'')"
proof -
  have v: "validateZOI ''3024E56BF1DDD2E7EEB5715C6859A913''"
    by (simp add: validateZOI_def is_hex_def)
  from hexToDecimalPadded_round_trip [OF v] v show ?thesis by blast
qed

subsection \<open>C5: the subject identity string\<close>

text \<open>
  Claim C5: the subject name that \<open>getCertificateInfo\<close> returns for a certificate is the
  identity string in the words of the specification, \<open>subject_identity_spec\<close>: the parts of
  the attributes that are present, joined with commas, in the fixed order CN with its
  commas escaped, the placeholder \<open>2.5.4.5=#1\<close> in place of the value of the attribute
  \<open>2.5.4.5\<close>, the OU that is the marker \<open>DavPotRacTEST\<close>, the OU that is all digits, O, C.
\<close>

theorem getCertificateInfo_subject:
  assumes "getCertificateInfo cert = Inr info"
  shows "subject_name info = subject_identity_spec (subject_attributes cert)"
  using assms
  by (auto simp: getCertificateInfo_def Let_def subject_of_spec split: sum.splits)

theorem getCertificateInfo_subject_witness:
  "getCertificateInfo
     \<lparr>subject_attributes =
        [\<lparr>attr_shortName = Some ''C'', attr_type = ''2.5.4.6'', attr_value = ''SI''\<rparr>,
         \<lparr>attr_shortName = Some ''O'', attr_type = ''2.5.4.10'', attr_value = ''state-institutions''\<rparr>,
         \<lparr>attr_shortName = Some ''OU'', attr_type = ''2.5.4.11'', attr_value = ''10039856''\<rparr>,
         \<lparr>attr_shortName = Some ''OU'', attr_type = ''2.5.4.11'', attr_value = ''DavPotRacTEST''\<rparr>,
         \<lparr>attr_shortName = None, attr_type = ''2.5.4.5'', attr_value = ''1''\<rparr>,
         \<lparr>attr_shortName = Some ''CN'', attr_type = ''2.5.4.3'', attr_value = ''TESTNO PODJETJE, d.o.o.''\<rparr>],
      issuer_attributes =
        [\<lparr>attr_shortName = Some ''CN'', attr_type = ''2.5.4.3'', attr_value = ''Tax CA Test''\<rparr>,
         \<lparr>attr_shortName = Some ''O'', attr_type = ''2.5.4.10'', attr_value = ''state-institutions''\<rparr>,
         \<lparr>attr_shortName = Some ''C'', attr_type = ''2.5.4.6'', attr_value = ''SI''\<rparr>],
      serialNumber = ''1f''\<rparr> =
   Inr \<lparr>subject_name = ''CN=TESTNO PODJETJE'' @ [CHR 0x5C] @
           '', d.o.o.,2.5.4.5=#1,OU=DavPotRacTEST,OU=10039856,O=state-institutions,C=SI'',
        issuer_name = ''CN=Tax CA Test,O=state-institutions,C=SI'',
        serial = ''31''\<rparr>"
proof -
  let ?cert = "\<lparr>subject_attributes =
        [\<lparr>attr_shortName = Some ''C'', attr_type = ''2.5.4.6'', attr_value = ''SI''\<rparr>,
         \<lparr>attr_shortName = Some ''O'', attr_type = ''2.5.4.10'', attr_value = ''state-institutions''\<rparr>,
         \<lparr>attr_shortName = Some ''OU'', attr_type = ''2.5.4.11'', attr_value = ''10039856''\<rparr>,
         \<lparr>attr_shortName = Some ''OU'', attr_type = ''2.5.4.11'', attr_value = ''DavPotRacTEST''\<rparr>,
         \<lparr>attr_shortName = None, attr_type = ''2.5.4.5'', attr_value = ''1''\<rparr>,
         \<lparr>attr_shortName = Some ''CN'', attr_type = ''2.5.4.3'', attr_value = ''TESTNO PODJETJE, d.o.o.''\<rparr>],
      issuer_attributes =
        [\<lparr>attr_shortName = Some ''CN'', attr_type = ''2.5.4.3'', attr_value = ''Tax CA Test''\<rparr>,
         \<lparr>attr_shortName = Some ''O'', attr_type = ''2.5.4.10'', attr_value = ''state-institutions''\<rparr>,
         \<lparr>attr_shortName = Some ''C'', attr_type = ''2.5.4.6'', attr_value = ''SI''\<rparr>],
      serialNumber = ''1f''\<rparr>"
  obtain info where info: "getCertificateInfo ?cert = Inr info"
    and rest: "issuer_name info = ''CN=Tax CA Test,O=state-institutions,C=SI''" "serial info = ''31''"
    by (simp add: getCertificateInfo_def issuer_of_def BigInt_hex_def hex_value_def is_hex_def is_space_def
        hex_val_def nat_toString.simps digit_char_def Let_def)
  from getCertificateInfo_subject [OF info]
  have "subject_name info = ''CN=TESTNO PODJETJE'' @ [CHR 0x5C] @
           '', d.o.o.,2.5.4.5=#1,OU=DavPotRacTEST,OU=10039856,O=state-institutions,C=SI''"
    by (simp add: subject_identity_spec_def present_def escape_commas_def is_OU_def is_digit_def)
  with info rest show ?thesis
    by (cases info) simp
qed

subsection \<open>C6: where the input is checked, and what can still fail\<close>




subsection \<open>C7: decoding a token never throws\<close>

text \<open>
  Claim C7: \<open>decodeJWT\<close> returns a result for every string. The string has one segment
  more than it has dots. When the segments are not three, the result is the failure
  value: an empty header, an empty payload, the empty signature, \<open>valid\<close> false and as
  \<open>error\<close> the reason \<open>Invalid JWT format - should have 3 parts\<close>. When they are three and
  \<open>JSON.parse\<close> throws on the decoded header or, the header parsed, on the decoded payload,
  the result is the same failure value with the message of that error as the reason.
  Otherwise it holds the parsed header and payload and the third segment as it is, is
  valid and carries no error. Decoding Base64URL itself never throws. So a result is
  valid exactly when it carries no error, and every result that is not valid is a failure
  value that carries its reason.
\<close>

theorem decodeJWT_never_throws:
  fixes JSON_parse :: "ustring \<Rightarrow> js_error + 'j"
  shows "length (split_on CHR ''.'' jwt) = Suc (length (filter (\<lambda>c. c = CHR ''.'') jwt)) \<and>
    (length (split_on CHR ''.'' jwt) \<noteq> 3 \<longrightarrow>
       decodeJWT JSON_parse empty_object jwt =
         \<lparr>jwt_header = empty_object, jwt_payload = empty_object, jwt_signature = [],
          jwt_valid = False, jwt_error = Some ''Invalid JWT format - should have 3 parts''\<rparr>) \<and>
    (\<forall>h p sig. split_on CHR ''.'' jwt = [h, p, sig] \<longrightarrow>
       decodeJWT JSON_parse empty_object jwt =
         (case JSON_parse (base64urlDecode h) of
            Inl e \<Rightarrow>
              \<lparr>jwt_header = empty_object, jwt_payload = empty_object, jwt_signature = [],
               jwt_valid = False, jwt_error = Some (message e)\<rparr>
          | Inr header \<Rightarrow>
              (case JSON_parse (base64urlDecode p) of
                 Inl e \<Rightarrow>
                   \<lparr>jwt_header = empty_object, jwt_payload = empty_object, jwt_signature = [],
                    jwt_valid = False, jwt_error = Some (message e)\<rparr>
               | Inr payload \<Rightarrow>
                   \<lparr>jwt_header = header, jwt_payload = payload, jwt_signature = sig,
                    jwt_valid = True, jwt_error = None\<rparr>))) \<and>
    (jwt_valid (decodeJWT JSON_parse empty_object jwt) \<longleftrightarrow>
       jwt_error (decodeJWT JSON_parse empty_object jwt) = None) \<and>
    (\<not> jwt_valid (decodeJWT JSON_parse empty_object jwt) \<longrightarrow>
       (\<exists>reason. decodeJWT JSON_parse empty_object jwt =
          \<lparr>jwt_header = empty_object, jwt_payload = empty_object, jwt_signature = [],
           jwt_valid = False, jwt_error = Some reason\<rparr>))"
proof (intro conjI allI impI)
  show "length (split_on CHR ''.'' jwt) = Suc (length (filter (\<lambda>c. c = CHR ''.'') jwt))"
    by (rule length_split_on)
next
  assume "length (split_on CHR ''.'' jwt) \<noteq> 3"
  then show "decodeJWT JSON_parse empty_object jwt =
      \<lparr>jwt_header = empty_object, jwt_payload = empty_object, jwt_signature = [],
       jwt_valid = False, jwt_error = Some ''Invalid JWT format - should have 3 parts''\<rparr>"
    by (simp add: decodeJWT_def decodeJWT_try_def Let_def)
next
  fix h p sig
  assume "split_on CHR ''.'' jwt = [h, p, sig]"
  then show "decodeJWT JSON_parse empty_object jwt =
         (case JSON_parse (base64urlDecode h) of
            Inl e \<Rightarrow>
              \<lparr>jwt_header = empty_object, jwt_payload = empty_object, jwt_signature = [],
               jwt_valid = False, jwt_error = Some (message e)\<rparr>
          | Inr header \<Rightarrow>
              (case JSON_parse (base64urlDecode p) of
                 Inl e \<Rightarrow>
                   \<lparr>jwt_header = empty_object, jwt_payload = empty_object, jwt_signature = [],
                    jwt_valid = False, jwt_error = Some (message e)\<rparr>
               | Inr payload \<Rightarrow>
                   \<lparr>jwt_header = header, jwt_payload = payload, jwt_signature = sig,
                    jwt_valid = True, jwt_error = None\<rparr>))"
    by (simp add: decodeJWT_def decodeJWT_try_def Let_def split: sum.splits)
next
  show "jwt_valid (decodeJWT JSON_parse empty_object jwt) \<longleftrightarrow>
       jwt_error (decodeJWT JSON_parse empty_object jwt) = None"
    by (simp add: decodeJWT_def decodeJWT_try_def Let_def split: sum.splits)
next
  assume "\<not> jwt_valid (decodeJWT JSON_parse empty_object jwt)"
  then show "\<exists>reason. decodeJWT JSON_parse empty_object jwt =
      \<lparr>jwt_header = empty_object, jwt_payload = empty_object, jwt_signature = [],
       jwt_valid = False, jwt_error = Some reason\<rparr>"
    by (auto simp: decodeJWT_def decodeJWT_try_def Let_def split: sum.splits if_splits)
qed

theorem decodeJWT_never_throws_witness:
  "decodeJWT (\<lambda>t. if t = [123, 125] then Inr (7::nat) else Inl (SyntaxError ''Unexpected end of JSON input''))
     0 ''e30.e30.c2ln'' =
     \<lparr>jwt_header = 7, jwt_payload = 7, jwt_signature = ''c2ln'', jwt_valid = True, jwt_error = None\<rparr> \<and>
   decodeJWT (\<lambda>t. if t = [123, 125] then Inr (7::nat) else Inl (SyntaxError ''Unexpected end of JSON input''))
     0 ''e30.e30'' =
     \<lparr>jwt_header = 0, jwt_payload = 0, jwt_signature = [], jwt_valid = False,
      jwt_error = Some ''Invalid JWT format - should have 3 parts''\<rparr> \<and>
   decodeJWT (\<lambda>t. if t = [123, 125] then Inr (7::nat) else Inl (SyntaxError ''Unexpected end of JSON input''))
     0 ''e30.x.c2ln'' =
     \<lparr>jwt_header = 0, jwt_payload = 0, jwt_signature = [], jwt_valid = False,
      jwt_error = Some ''Unexpected end of JSON input''\<rparr>"
proof -
  let ?parse = "\<lambda>t. if t = [123, 125] then Inr (7::nat) else Inl (SyntaxError ''Unexpected end of JSON input'')"
  have s1: "split_on CHR ''.'' ''e30.e30.c2ln'' = [''e30'', ''e30'', ''c2ln'']"
    and s2: "length (split_on CHR ''.'' ''e30.e30'') \<noteq> 3"
    and s3: "split_on CHR ''.'' ''e30.x.c2ln'' = [''e30'', ''x'', ''c2ln'']"
    by simp_all
  from decodeJWT_never_throws [of "''e30.e30.c2ln''" ?parse 0] s1
  have "decodeJWT ?parse 0 ''e30.e30.c2ln'' =
     \<lparr>jwt_header = 7, jwt_payload = 7, jwt_signature = ''c2ln'', jwt_valid = True, jwt_error = None\<rparr>"
    by (simp add: decode_e30)
  moreover from decodeJWT_never_throws [of "''e30.e30''" ?parse 0] s2
  have "decodeJWT ?parse 0 ''e30.e30'' =
     \<lparr>jwt_header = 0, jwt_payload = 0, jwt_signature = [], jwt_valid = False,
      jwt_error = Some ''Invalid JWT format - should have 3 parts''\<rparr>"
    by blast
  moreover from decodeJWT_never_throws [of "''e30.x.c2ln''" ?parse 0] s3
  have "decodeJWT ?parse 0 ''e30.x.c2ln'' =
     \<lparr>jwt_header = 0, jwt_payload = 0, jwt_signature = [], jwt_valid = False,
      jwt_error = Some ''Unexpected end of JSON input''\<rparr>"
    by (simp add: decode_e30 decode_x)
  ultimately show ?thesis by blast
qed

subsection \<open>C8: four parts\<close>

text \<open>
  Claim C8: for a payload of 60 characters, \<open>splitForCode128\<close> with four parts returns
  four strings; the part of index \<open>i\<close> (from 0) is the prefix \<open>44\<close>, the single digit
  \<open>i + 1\<close> and a data slice of 12 characters, 15 characters in all.
\<close>

theorem splitForCode128_four_parts:
  assumes "length payload = 60"
  shows "\<exists>ps. splitForCode128 payload 4 = Inr ps \<and> length ps = 4 \<and>
           (\<forall>i<4. ps ! i = ''44'' @ [digit_char (i + 1)] @ slice payload (12 * i) (12 * i + 12) \<and>
                   length (ps ! i) = 15)"
proof -
  have table: "split_table 4 = Some (15, ''44'')"
    by (simp add: split_table_def)
  let ?ps = "map (\<lambda>k. ''44'' @ nat_toString (k + 1) @ slice payload (k * 12) (k * 12 + 12)) [0..<4]"
  have eq: "splitForCode128 payload 4 = Inr ?ps"
    using splitForCode128_eq [OF assms table] by simp
  have len: "length ?ps = 4"
    by simp
  have parts: "\<forall>i<4. ?ps ! i = ''44'' @ [digit_char (i + 1)] @ slice payload (12 * i) (12 * i + 12) \<and>
                 length (?ps ! i) = 15"
  proof (intro allI impI)
    fix i :: nat
    assume i: "i < 4"
    then have "nat_toString (i + 1) = [digit_char (i + 1)]"
      by (simp add: nat_toString_small)
    moreover from i assms have "length (slice payload (12 * i) (12 * i + 12)) = 12"
      by (simp add: slice_def)
    ultimately show "?ps ! i = ''44'' @ [digit_char (i + 1)] @ slice payload (12 * i) (12 * i + 12) \<and>
        length (?ps ! i) = 15"
      using i by (simp add: mult.commute)
  qed
  from eq len parts show ?thesis by blast
qed

theorem splitForCode128_four_parts_witness:
  "length ''223175087923687075112234402528973166755123456781508151013321'' = 60 \<and>
   (\<exists>ps. splitForCode128 ''223175087923687075112234402528973166755123456781508151013321'' 4 = Inr ps \<and>
      length ps = 4 \<and> ps ! 0 = ''441223175087923'' \<and> ps ! 3 = ''444755123456781'')"
proof -
  have len: "length ''223175087923687075112234402528973166755123456781508151013321'' = 60"
    by simp
  from splitForCode128_four_parts [OF len] obtain ps where
    ps: "splitForCode128 ''223175087923687075112234402528973166755123456781508151013321'' 4 = Inr ps"
      "length ps = 4"
      "\<forall>i<4. ps ! i = ''44'' @ [digit_char (i + 1)] @
          slice ''223175087923687075112234402528973166755123456781508151013321'' (12 * i) (12 * i + 12) \<and>
          length (ps ! i) = 15"
    by blast
  from ps(3) [rule_format, of 0] ps(3) [rule_format, of 3]
  have "ps ! 0 = ''441223175087923''" and "ps ! 3 = ''444755123456781''"
    by (simp_all add: slice_def digit_char_def)
  with len ps(1,2) show ?thesis by blast
qed

subsection \<open>C10: Base64URL there and back\<close>

text \<open>
  Claim C10: for every well-formed string \<open>s\<close> (a list of Unicode scalar values),
  \<open>base64urlDecode (base64urlEncode s)\<close> is \<open>s\<close>; the string that the decoder pads has a
  length that is a multiple of 4, and when the encoded form already has such a length,
  the padding \<open>(4 - length mod 4) mod 4\<close> adds no character.
\<close>

theorem base64url_round_trip:
  assumes "list_all is_scalar s"
  shows "base64urlDecode (base64urlEncode (Str s)) = s \<and>
         length (paddedData (base64urlEncode (Str s))) mod 4 = 0 \<and>
         (length (base64urlEncode (Str s)) mod 4 = 0 \<longrightarrow>
            paddedData (base64urlEncode (Str s)) = base64urlEncode (Str s))"
proof -
  let ?bs = "Buffer_from_utf8 s"
  have bytes: "list_all (\<lambda>b. b < 256) ?bs"
    using assms by (rule Buffer_from_utf8_bytes)
  have enc: "base64urlEncode (Str s) = map b64url_char (sextets ?bs)"
    using base64urlEncode_sextets [OF bytes] by (simp add: base64urlEncode_def)
  have "base64urlDecode (base64urlEncode (Str s)) = Buffer_toString_utf8 ?bs"
    unfolding enc using bytes by (rule base64urlDecode_sextets)
  also have "\<dots> = s"
    using assms by (rule utf8_round_trip)
  finally show ?thesis
    by (simp add: paddedData_length paddedData_aligned)
qed

theorem base64url_round_trip_witness:
  "list_all is_scalar [0x61, 0x10D, 0x20AC] \<and>
   base64urlEncode (Str [0x61, 0x10D, 0x20AC]) = ''YcSN4oKs'' \<and>
   length ''YcSN4oKs'' mod 4 = 0 \<and>
   paddedData ''YcSN4oKs'' = ''YcSN4oKs'' \<and>
   base64urlDecode ''YcSN4oKs'' = [0x61, 0x10D, 0x20AC]"
proof -
  have sc: "list_all is_scalar [0x61, 0x10D, 0x20AC]"
    by (simp add: is_scalar_def)
  have enc: "base64urlEncode (Str [0x61, 0x10D, 0x20AC]) = ''YcSN4oKs''"
    by (simp add: base64urlEncode_def Buffer_from_utf8_def utf8_encode_cp_def b64_char_def
        replace_all_def)
  from base64url_round_trip [OF sc] sc show ?thesis
    by (simp add: enc)
qed

end
